theory Spec2Isabelle
  imports Main "HOL-Library.Multiset"
begin

section \<open>Cards and the deck (game.js, Card Utilities)\<close>

datatype suit = Hearts | Diamonds | Clubs | Spades

text \<open>A card is the object \<open>{ suit, rank, value }\<close>; the field \<open>value\<close> is named
  \<open>cvalue\<close> here.\<close>

record card =
  suit :: suit
  rank :: string
  cvalue :: int

text \<open>\<open>RANKS\<close>, in the order \<open>Object.entries\<close> lists it.\<close>

definition RANKS :: "(string \<times> int) list" where
  "RANKS = [(''2'', 2), (''3'', 3), (''4'', 4), (''5'', 5), (''6'', 6), (''7'', 7), (''8'', 8),
            (''9'', 9), (''10'', 10), (''J'', 11), (''Q'', 12), (''K'', 13), (''A'', 14)]"

datatype card_type = Monster | Weapon | Potion | Unknown

definition getCardType :: "card \<Rightarrow> card_type" where
  "getCardType c =
     (if suit c = Clubs \<or> suit c = Spades then Monster
      else if suit c = Diamonds then Weapon
      else if suit c = Hearts then Potion
      else Unknown)"

definition createDeck :: "card list" where
  "createDeck =
     concat (map (\<lambda>s. map (\<lambda>(r, v). \<lparr>suit = s, rank = r, cvalue = v\<rparr>) RANKS) [Clubs, Spades])
     @ map (\<lambda>(r, v). \<lparr>suit = Diamonds, rank = r, cvalue = v\<rparr>)
         (filter (\<lambda>(r, v). 2 \<le> v \<and> v \<le> 10) RANKS)
     @ map (\<lambda>(r, v). \<lparr>suit = Hearts, rank = r, cvalue = v\<rparr>)
         (filter (\<lambda>(r, v). 2 \<le> v \<and> v \<le> 10) RANKS)"

section \<open>Arrays of cards\<close>

text \<open>An entry of a JavaScript array that is meant to hold cards: a card, the value
  \<open>undefined\<close>, or no entry at all (a hole of a sparse array). The deck created by
  \<open>createDeck\<close> holds cards only; \<open>shuffle\<close> can write \<open>undefined\<close> into it.\<close>

datatype slot = Card card | Undefined | Hole

text \<open>The value read from an entry: a hole reads as \<open>undefined\<close>.\<close>

definition read_slot :: "slot \<Rightarrow> slot" where
  "read_slot s = (case s of Hole \<Rightarrow> Undefined | _ \<Rightarrow> s)"

text \<open>\<open>array[i]\<close> and \<open>array[i] = v\<close> for an index \<open>i\<close>: reading outside the array gives
  \<open>undefined\<close>, writing outside the array extends it.\<close>

definition js_get :: "slot list \<Rightarrow> nat \<Rightarrow> slot" where
  "js_get xs i = (if i < length xs then read_slot (xs ! i) else Undefined)"

definition js_set :: "slot list \<Rightarrow> nat \<Rightarrow> slot \<Rightarrow> slot list" where
  "js_set xs i v =
     (if i < length xs then xs[i := v] else xs @ replicate (i - length xs) Hole @ [v])"

text \<open>\<open>array[index]\<close> for an integer \<open>index\<close>, as the driver passes to \<open>selectCard\<close>:
  \<open>None\<close> is \<open>undefined\<close>.\<close>

definition at_index :: "'a list \<Rightarrow> int \<Rightarrow> 'a option" where
  "at_index xs i = (if 0 \<le> i \<and> i < int (length xs) then Some (xs ! nat i) else None)"

text \<open>The same for an array of cards: \<open>None\<close> when the index is outside the array or
  the entry is not a card.\<close>

definition card_at :: "slot list \<Rightarrow> int \<Rightarrow> card option" where
  "card_at xs i = (case at_index xs i of Some (Card c) \<Rightarrow> Some c | _ \<Rightarrow> None)"

section \<open>The shuffle\<close>

text \<open>The seeded generator works on floating-point numbers, which are not modelled. Their
  type is the parameter \<open>'n\<close>, and the three floating-point computations of \<open>shuffle\<close> are
  the fields of \<open>js_math\<close>: they are the same functions in every run. What a run reads
  from its surroundings is in \<open>js_env\<close>.\<close>

record 'n js_math =
  sin_times :: "'n \<Rightarrow> 'n"  \<comment> \<open>\<open>Math.sin(s) * 10000\<close>\<close>
  frac :: "'n \<Rightarrow> 'n"  \<comment> \<open>\<open>s - Math.floor(s)\<close>\<close>
  floor_times :: "'n \<Rightarrow> nat \<Rightarrow> nat option"
    \<comment> \<open>\<open>Math.floor(r * n)\<close>; \<open>None\<close> is NaN\<close>

record 'n js_env =
  now :: 'n  \<comment> \<open>\<open>Date.now()\<close>\<close>
  random :: "nat \<Rightarrow> 'n"  \<comment> \<open>the value of the k-th call of \<open>Math.random()\<close>\<close>

datatype 'n rng = Seeded 'n | Unseeded nat

fun rng_call :: "'n js_math \<Rightarrow> 'n js_env \<Rightarrow> 'n rng \<Rightarrow> 'n \<times> 'n rng" where
  "rng_call m e (Seeded s) = (let s' = sin_times m s in (frac m s', Seeded s'))"
| "rng_call m e (Unseeded k) = (random e k, Unseeded (Suc k))"

text \<open>The loop \<open>for (let i = array.length - 1; i > 0; i--)\<close>; the source's \<open>i\<close> is
  \<open>Suc i\<close> here. The state of the loop is the array and its property \<open>NaN\<close>, which is
  what \<open>array[j]\<close> reads and writes when \<open>j\<close> is NaN (\<open>undefined\<close> while it has not been
  written). The swap \<open>[array[i], array[j]] = [array[j], array[i]]\<close> reads both entries,
  then writes \<open>array[i]\<close>, then \<open>array[j]\<close>.\<close>

fun shuffle_loop ::
  "'n js_math \<Rightarrow> 'n js_env \<Rightarrow> 'n rng \<Rightarrow> nat \<Rightarrow> slot list \<times> slot \<Rightarrow> slot list \<times> slot" where
  "shuffle_loop m e g 0 (array, nan) = (array, nan)"
| "shuffle_loop m e g (Suc i) (array, nan) =
     (let (r, g') = rng_call m e g in
      case floor_times m r (Suc i + 1) of
        None \<Rightarrow>
          (let aj = nan; ai = js_get array (Suc i) in
           shuffle_loop m e g' i (js_set array (Suc i) aj, ai))
      | Some j \<Rightarrow>
          (let aj = js_get array j; ai = js_get array (Suc i) in
           shuffle_loop m e g' i (js_set (js_set array (Suc i) aj) j ai, nan)))"

definition shuffle ::
  "'n js_math \<Rightarrow> 'n js_env \<Rightarrow> slot list \<Rightarrow> 'n option \<Rightarrow> slot list" where
  "shuffle m e array seed =
     fst (shuffle_loop m e (case seed of Some s \<Rightarrow> Seeded s | None \<Rightarrow> Unseeded 0)
            (length array - 1) (array, Undefined))"

section \<open>The game state\<close>

record equipped =
  wvalue :: int
  lastDefeated :: "int option"
  defeatedMonsters :: "card list"

datatype log_type = Info | Turn | Success | Warning | Danger

text \<open>The messages of the event log, one constructor for each template string of the
  source, holding the interpolated values in the order they appear. The timestamp of an
  entry is left out: no operation reads the log.\<close>

datatype message =
    GameStarted
  | Carried suit string
  | EnteredRoom nat nat
  | Avoided
  | DiscardedOldWeapon int nat
  | EquippedWeapon suit string int
  | PotionDiscarded suit string
  | UsedPotion suit string int int int
  | Fought suit string int int int int
  | TooStrong suit string int "int option" int
  | BareHanded suit string int int
  | Victory int int
  | Defeated int int nat

text \<open>The deck and the room are arrays as \<open>shuffle\<close> and \<open>shift\<close> leave them. The
  carried card is \<open>None\<close> when the field is \<open>null\<close> or \<open>undefined\<close>.\<close>

record 'n game =
  seed :: 'n
  health :: int
  maxHealth :: int
  turn :: nat
  deck :: "slot list"
  discard :: "card list"
  room :: "slot list"
  weapon :: "equipped option"
  canAvoid :: bool
  roomCarriedCard :: "card option"
  potionUsedThisTurn :: bool
  selectedCards :: "int list"
  gameOver :: bool
  gameWon :: bool
  defeatingCard :: "card option"
  eventLog :: "(message \<times> log_type) list"

definition logEvent :: "'n game \<Rightarrow> message \<Rightarrow> log_type \<Rightarrow> 'n game" where
  "logEvent g msg ty = g\<lparr>eventLog := eventLog g @ [(msg, ty)]\<rparr>"

definition reset :: "'n js_math \<Rightarrow> 'n js_env \<Rightarrow> 'n option \<Rightarrow> 'n game" where
  "reset m e seed0 =
     (let sd = (case seed0 of Some s \<Rightarrow> s | None \<Rightarrow> now e) in
      logEvent
        \<lparr>seed = sd, health = 20, maxHealth = 20, turn = 0,
         deck = shuffle m e (map Card createDeck) (Some sd), discard = [],
         room = [], weapon = None, canAvoid = True, roomCarriedCard = None,
         potionUsedThisTurn = False, selectedCards = [], gameOver = False,
         gameWon = False, defeatingCard = None, eventLog = []\<rparr>
        GameStarted Info)"

text \<open>An exception is a value: \<open>TypeError\<close> is what reading \<open>card.suit\<close> raises when
  \<open>card\<close> is \<open>undefined\<close>. A method that can raise after it has changed the state
  returns the exception, if any, together with the state it leaves.\<close>

datatype error = TypeError

text \<open>\<open>array.filter(c => getCardType(c) === 'monster')\<close>: \<open>filter\<close> skips holes, and
  \<open>getCardType\<close> raises on \<open>undefined\<close>.\<close>

fun monsters_of :: "slot list \<Rightarrow> error + card list" where
  "monsters_of [] = Inr []"
| "monsters_of (Hole # xs) = monsters_of xs"
| "monsters_of (Undefined # xs) = Inl TypeError"
| "monsters_of (Card c # xs) =
     (case monsters_of xs of
        Inl err \<Rightarrow> Inl err
      | Inr ms \<Rightarrow> Inr (if getCardType c = Monster then c # ms else ms))"

definition remainingMonsters :: "'n game \<Rightarrow> error + card list" where
  "remainingMonsters g =
     (case monsters_of (deck g) of
        Inl err \<Rightarrow> Inl err
      | Inr ds \<Rightarrow> (case monsters_of (room g) of Inl err \<Rightarrow> Inl err | Inr rs \<Rightarrow> Inr (ds @ rs)))"

definition endGame :: "'n game \<Rightarrow> bool \<Rightarrow> error option \<times> 'n game" where
  "endGame g won =
     (let g1 = g\<lparr>gameOver := True, gameWon := won\<rparr> in
      if won then
        (let score = health g1 in (None, logEvent g1 (Victory (health g1) score) Success))
      else
        (case remainingMonsters g1 of
           Inl err \<Rightarrow> (Some err, g1)
         | Inr ms \<Rightarrow>
             (let monsterSum = foldl (\<lambda>sum c. sum + cvalue c) 0 ms;
                  score = - monsterSum
              in (None, logEvent g1 (Defeated (health g1) score (length ms)) Danger))))"

definition getScore :: "'n game \<Rightarrow> error + int" where
  "getScore g =
     (if gameWon g then Inr (health g)
      else if gameOver g then
        (case remainingMonsters g of
           Inl err \<Rightarrow> Inl err
         | Inr ms \<Rightarrow> Inr (- foldl (\<lambda>sum c. sum + cvalue c) 0 ms))
      else Inr 0)"

text \<open>The loop \<open>while (this.room.length < 4 && this.deck.length > 0)\<close> of \<open>drawRoom\<close>, on
  the pair of room and deck; \<open>shift\<close> returns \<open>undefined\<close> for a hole.\<close>

fun draw_loop :: "slot list \<Rightarrow> slot list \<Rightarrow> slot list \<times> slot list" where
  "draw_loop rm [] = (rm, [])"
| "draw_loop rm (s # dk) =
     (if length rm < 4 then draw_loop (rm @ [read_slot s]) dk else (rm, s # dk))"

text \<open>\<open>endGame(true)\<close> reads no card and cannot raise, so \<open>drawRoom\<close> always returns.\<close>

definition drawRoom :: "'n game \<Rightarrow> bool \<times> 'n game" where
  "drawRoom g =
     (if gameOver g then (False, g)
      else
        let g1 = g\<lparr>room := [], potionUsedThisTurn := False, selectedCards := []\<rparr>;
            g2 = (case roomCarriedCard g1 of
                    Some c \<Rightarrow>
                      (logEvent (g1\<lparr>room := room g1 @ [Card c]\<rparr>) (Carried (suit c) (rank c)) Info)
                        \<lparr>roomCarriedCard := None\<rparr>
                  | None \<Rightarrow> g1);
            (rm, dk) = draw_loop (room g2) (deck g2);
            g3 = g2\<lparr>room := rm, deck := dk, turn := turn g2 + 1\<rparr>
        in if length (room g3) < 4 \<and> length (deck g3) = 0
           then (False, snd (endGame g3 True))
           else (True, logEvent g3 (EnteredRoom (turn g3) (length (room g3))) Turn))"

text \<open>\<open>this.deck.push(...this.room)\<close>: the spread reads every entry of the room.\<close>

definition avoidRoom :: "'n game \<Rightarrow> bool \<times> 'n game" where
  "avoidRoom g =
     (if \<not> canAvoid g \<or> gameOver g \<or> length (room g) \<noteq> 4 then (False, g)
      else
        let g1 = g\<lparr>deck := deck g @ map read_slot (room g)\<rparr>;
            g2 = g1\<lparr>room := [], canAvoid := False, roomCarriedCard := None\<rparr>;
            g3 = logEvent g2 Avoided Warning
        in (True, snd (drawRoom g3)))"

text \<open>\<open>Array.prototype.indexOf\<close> and \<open>splice(k, 1)\<close>.\<close>

fun indexOf :: "'a list \<Rightarrow> 'a \<Rightarrow> int" where
  "indexOf [] x = - 1"
| "indexOf (y # ys) x = (if y = x then 0 else (let k = indexOf ys x in if k < 0 then - 1 else k + 1))"

definition splice1 :: "'a list \<Rightarrow> int \<Rightarrow> 'a list" where
  "splice1 xs k = take (nat k) xs @ drop (nat k + 1) xs"

definition selectCard :: "'n game \<Rightarrow> int \<Rightarrow> bool \<times> 'n game" where
  "selectCard g index =
     (if gameOver g \<or> card_at (room g) index = None then (False, g)
      else
        let cardIndex = indexOf (selectedCards g) index in
        if cardIndex \<ge> 0 then (True, g\<lparr>selectedCards := splice1 (selectedCards g) cardIndex\<rparr>)
        else if length (selectedCards g) < 3
        then (True, g\<lparr>selectedCards := selectedCards g @ [index]\<rparr>)
        else (True, g))"

section \<open>Resolving cards\<close>

text \<open>\<open>String(n)\<close> for an integer \<open>n\<close>.\<close>

definition digit_char :: "nat \<Rightarrow> char" where
  "digit_char d = ''0123456789'' ! d"

function digits :: "nat \<Rightarrow> string" where
  "digits n = (if n < 10 then [digit_char n] else digits (n div 10) @ [digit_char (n mod 10)])"
  by pat_completeness auto
termination
  by (relation "measure id") auto

declare digits.simps [simp del]

definition String_num :: "int \<Rightarrow> string" where
  "String_num i = (if i < 0 then CHR ''-'' # digits (nat (- i)) else digits (nat i))"

record resolve_info =
  canResolve :: bool
  reason :: "string option"
  forceBareHanded :: "bool option"

definition canResolveCard :: "'n game \<Rightarrow> card \<Rightarrow> resolve_info" where
  "canResolveCard g c =
     (let ty = getCardType c in
      if ty = Potion \<and> potionUsedThisTurn g
      then \<lparr>canResolve = False, reason = Some ''Only one potion per room'',
            forceBareHanded = None\<rparr>
      else if ty = Monster then
        (case weapon g of
           Some w \<Rightarrow>
             (case lastDefeated w of
                Some l \<Rightarrow>
                  if cvalue c > l
                  then \<lparr>canResolve = True,
                        reason = Some (''Monster too strong for weapon ('' @ String_num (cvalue c)
                                       @ '' > '' @ String_num l @ '')''),
                        forceBareHanded = Some True\<rparr>
                  else \<lparr>canResolve = True, reason = None, forceBareHanded = None\<rparr>
              | None \<Rightarrow> \<lparr>canResolve = True, reason = None, forceBareHanded = None\<rparr>)
         | None \<Rightarrow> \<lparr>canResolve = True, reason = None, forceBareHanded = None\<rparr>)
      else \<lparr>canResolve = True, reason = None, forceBareHanded = None\<rparr>)"

definition resolveWeapon :: "'n game \<Rightarrow> card \<Rightarrow> 'n game" where
  "resolveWeapon g c =
     (let g1 = (case weapon g of
                  Some w \<Rightarrow>
                    logEvent
                      (g\<lparr>discard := (discard g
                            @ [\<lparr>suit = Diamonds, rank = String_num (wvalue w), cvalue = wvalue w\<rparr>])
                            @ defeatedMonsters w\<rparr>)
                      (DiscardedOldWeapon (wvalue w) (length (defeatedMonsters w))) Info
                | None \<Rightarrow> g)
      in logEvent
           (g1\<lparr>weapon := Some \<lparr>wvalue = cvalue c, lastDefeated = None, defeatedMonsters = []\<rparr>\<rparr>)
           (EquippedWeapon (suit c) (rank c) (cvalue c)) Success)"

definition resolvePotion :: "'n game \<Rightarrow> card \<Rightarrow> 'n game" where
  "resolvePotion g c =
     (if potionUsedThisTurn g
      then logEvent (g\<lparr>discard := discard g @ [c]\<rparr>) (PotionDiscarded (suit c) (rank c)) Warning
      else
        let oldHealth = health g;
            g1 = g\<lparr>health := min (maxHealth g) (health g + cvalue c)\<rparr>;
            healed = health g1 - oldHealth;
            g2 = g1\<lparr>potionUsedThisTurn := True\<rparr>;
            g3 = g2\<lparr>discard := discard g2 @ [c]\<rparr>
        in logEvent g3 (UsedPotion (suit c) (rank c) healed oldHealth (health g3)) Success)"

text \<open>The last step of \<open>resolveMonster\<close>: \<open>if (damage > 0) { ... }\<close>. \<open>endGame(false)\<close>
  can raise.\<close>

definition take_damage :: "'n game \<Rightarrow> card \<Rightarrow> int \<Rightarrow> error option \<times> 'n game" where
  "take_damage g c damage =
     (if damage > 0 then
        (let g1 = g\<lparr>health := health g - damage\<rparr> in
         if health g1 \<le> 0 then endGame (g1\<lparr>defeatingCard := Some c\<rparr>) False else (None, g1))
      else (None, g))"

definition resolveMonster :: "'n game \<Rightarrow> card \<Rightarrow> error option \<times> 'n game" where
  "resolveMonster g c =
     (case weapon g of
        Some w \<Rightarrow>
          (let canUseWeapon = (case lastDefeated w of None \<Rightarrow> True | Some l \<Rightarrow> cvalue c \<le> l) in
           if canUseWeapon then
             (let damage = max 0 (cvalue c - wvalue w);
                  w1 = w\<lparr>defeatedMonsters := defeatedMonsters w @ [c]\<rparr>;
                  w2 = w1\<lparr>lastDefeated := Some (cvalue c)\<rparr>;
                  g1 = logEvent (g\<lparr>weapon := Some w2\<rparr>)
                         (Fought (suit c) (rank c) (cvalue c) (wvalue w2) damage (cvalue c))
                         (if damage = 0 then Success else Warning)
              in take_damage g1 c damage)
           else
             (let damage = cvalue c;
                  g1 = logEvent (g\<lparr>discard := discard g @ [c]\<rparr>)
                         (TooStrong (suit c) (rank c) (cvalue c) (lastDefeated w) damage) Danger
              in take_damage g1 c damage))
      | None \<Rightarrow>
          (let damage = cvalue c;
               g1 = logEvent (g\<lparr>discard := discard g @ [c]\<rparr>)
                      (BareHanded (suit c) (rank c) (cvalue c) damage) Danger
           in take_damage g1 c damage))"

text \<open>The \<open>switch\<close> of \<open>faceRoom\<close> on the type of one card.\<close>

definition resolve_card :: "'n game \<Rightarrow> card \<Rightarrow> error option \<times> 'n game" where
  "resolve_card g c =
     (case getCardType c of
        Weapon \<Rightarrow> (None, resolveWeapon g c)
      | Potion \<Rightarrow> (None, resolvePotion g c)
      | Monster \<Rightarrow> resolveMonster g c
      | Unknown \<Rightarrow> (None, g))"

text \<open>The loop \<open>for (const index of this.selectedCards)\<close>, on the indices still to
  resolve. \<open>getCardType(card)\<close> raises when the room holds no card at the index.\<close>

fun resolve_loop :: "'n game \<Rightarrow> int list \<Rightarrow> error option \<times> 'n game" where
  "resolve_loop g [] = (None, g)"
| "resolve_loop g (index # rest) =
     (case card_at (room g) index of
        None \<Rightarrow> (Some TypeError, g)
      | Some c \<Rightarrow>
          (case resolve_card g c of
             (Some err, g') \<Rightarrow> (Some err, g')
           | (None, g') \<Rightarrow> if gameOver g' then (None, g') else resolve_loop g' rest))"

text \<open>\<open>faceRoom\<close> returns a boolean, or raises and leaves the state of that moment.\<close>

definition faceRoom :: "'n game \<Rightarrow> error \<times> 'n game + bool \<times> 'n game" where
  "faceRoom g =
     (if length (selectedCards g) \<noteq> 3 \<or> gameOver g then Inr (False, g)
      else
        case resolve_loop g (selectedCards g) of
          (Some err, g1) \<Rightarrow> Inl (err, g1)
        | (None, g1) \<Rightarrow>
            (let g2 = (case find (\<lambda>i. i \<notin> set (selectedCards g1)) [0, 1, 2, 3] of
                         Some carriedIndex \<Rightarrow>
                           g1\<lparr>roomCarriedCard := card_at (room g1) carriedIndex\<rparr>
                       | None \<Rightarrow> g1);
                 g3 = g2\<lparr>room := [], canAvoid := True, selectedCards := []\<rparr>
             in if \<not> gameOver g3 then Inr (True, snd (drawRoom g3)) else Inr (True, g3)))"

section \<open>Runs of the public operations\<close>

datatype op = DrawRoom | AvoidRoom | SelectCard int | FaceRoom

text \<open>An operation returns, with the state it leaves (\<open>Inr\<close>), or raises, with the state
  it leaves (\<open>Inl\<close>). A run stops at the first exception.\<close>

fun apply_op :: "'n game \<Rightarrow> op \<Rightarrow> error \<times> 'n game + 'n game" where
  "apply_op g DrawRoom = Inr (snd (drawRoom g))"
| "apply_op g AvoidRoom = Inr (snd (avoidRoom g))"
| "apply_op g (SelectCard i) = Inr (snd (selectCard g i))"
| "apply_op g FaceRoom = (case faceRoom g of Inl eg \<Rightarrow> Inl eg | Inr (b, g') \<Rightarrow> Inr g')"

fun run :: "'n game \<Rightarrow> op list \<Rightarrow> error \<times> 'n game + 'n game" where
  "run g [] = Inr g"
| "run g (x # xs) = (case apply_op g x of Inl eg \<Rightarrow> Inl eg | Inr g' \<Rightarrow> run g' xs)"

text \<open>The states in which a public operation has given control back to the driver: the
  state after \<open>reset\<close>, and the state after any operation called in such a state,
  whether it returned or raised.\<close>

inductive reachable :: "'n js_math \<Rightarrow> 'n game \<Rightarrow> bool" for m :: "'n js_math" where
  after_reset: "reachable m (reset m e sd)"
| after_op: "reachable m g \<Longrightarrow> apply_op g x = Inr g' \<Longrightarrow> reachable m g'"
| after_raise: "reachable m g \<Longrightarrow> apply_op g x = Inl (err, g') \<Longrightarrow> reachable m g'"

text \<open>The cards of an array, in order.\<close>

fun cards_of :: "slot list \<Rightarrow> card list" where
  "cards_of [] = []"
| "cards_of (Card c # xs) = c # cards_of xs"
| "cards_of (s # xs) = cards_of xs"

text \<open>The states of a game whose shuffle left the 44 cards in the deck, for a driver
  that calls \<open>drawRoom\<close> itself only while the room is empty (ui.js calls it once, right
  after \<open>reset\<close>).\<close>

inductive played :: "'n js_math \<Rightarrow> 'n game \<Rightarrow> bool" for m :: "'n js_math" where
  played_reset: "mset (deck (reset m e sd)) = mset (map Card createDeck)
     \<Longrightarrow> played m (reset m e sd)"
| played_op: "played m g \<Longrightarrow> (x = DrawRoom \<longrightarrow> room g = []) \<Longrightarrow> apply_op g x = Inr g'
     \<Longrightarrow> played m g'"

text \<open>The swap indices of one shuffle, as a condition: each is an index of an array of
  \<open>len\<close> entries (and not NaN).\<close>

fun picks_in_range :: "'n js_math \<Rightarrow> 'n js_env \<Rightarrow> 'n rng \<Rightarrow> nat \<Rightarrow> nat \<Rightarrow> bool" where
  "picks_in_range m e g 0 len = True"
| "picks_in_range m e g (Suc i) len =
     (let (r, g') = rng_call m e g in
      case floor_times m r (Suc i + 1) of
        None \<Rightarrow> False
      | Some j \<Rightarrow> j < len \<and> picks_in_range m e g' i len)"

section \<open>Where the cards are\<close>

definition carried_cards :: "'n game \<Rightarrow> card multiset" where
  "carried_cards g = (case roomCarriedCard g of None \<Rightarrow> {#} | Some c \<Rightarrow> {#c#})"

definition stacked_cards :: "'n game \<Rightarrow> card multiset" where
  "stacked_cards g = (case weapon g of None \<Rightarrow> {#} | Some w \<Rightarrow> mset (defeatedMonsters w))"

text \<open>The collections of the conservation property: deck, discard pile, room, the
  monsters stacked on the weapon, the carried card.\<close>

definition listed_cards :: "'n game \<Rightarrow> card multiset" where
  "listed_cards g =
     mset (cards_of (deck g)) + mset (discard g) + mset (cards_of (room g))
     + stacked_cards g + carried_cards g"

text \<open>The equipped weapon is kept as its value alone; this is the card \<open>resolveWeapon\<close>
  puts on the discard pile when the weapon is replaced.\<close>

definition weapon_token :: "equipped \<Rightarrow> card" where
  "weapon_token w = \<lparr>suit = Diamonds, rank = String_num (wvalue w), cvalue = wvalue w\<rparr>"

definition held_cards :: "'n game \<Rightarrow> card multiset" where
  "held_cards g = (case weapon g of None \<Rightarrow> {#} | Some w \<Rightarrow> {#weapon_token w#})"

text \<open>All 44 cards: the listed collections and the equipped weapon.\<close>

definition all_cards :: "'n game \<Rightarrow> card multiset" where
  "all_cards g = listed_cards g + held_cards g"

section \<open>Invariants of the reachable states\<close>

definition health_ok :: "'n game \<Rightarrow> bool" where
  "health_ok g \<longleftrightarrow>
     maxHealth g = 20 \<and> health g \<le> 20 \<and> (health g \<le> 0 \<longrightarrow> gameOver g \<and> \<not> gameWon g)"

definition cards_ok :: "'n game \<Rightarrow> bool" where
  "cards_ok g \<longleftrightarrow>
     set (cards_of (deck g)) \<subseteq> set createDeck \<and> set (cards_of (room g)) \<subseteq> set createDeck
     \<and> set_option (roomCarriedCard g) \<subseteq> set createDeck"

definition selection_ok :: "'n game \<Rightarrow> bool" where
  "selection_ok g \<longleftrightarrow>
     distinct (selectedCards g) \<and> length (selectedCards g) \<le> 3
     \<and> (\<forall>i \<in> set (selectedCards g). card_at (room g) i \<noteq> None)"

definition room_ok :: "'n game \<Rightarrow> bool" where
  "room_ok g \<longleftrightarrow>
     (\<not> gameOver g \<longrightarrow> roomCarriedCard g = None \<and> (room g = [] \<or> length (room g) = 4))"

text \<open>Deck and room hold cards only.\<close>

definition intact :: "'n game \<Rightarrow> bool" where
  "intact g \<longleftrightarrow> (\<forall>s \<in> set (deck g) \<union> set (room g). \<exists>c. s = Card c)"

definition conserved :: "'n game \<Rightarrow> bool" where
  "conserved g \<longleftrightarrow> (\<not> gameOver g \<longrightarrow> all_cards g = mset createDeck)"

section \<open>Example inputs\<close>

text \<open>Instances of the floating-point functions, for running the model. With
  \<open>no_swap\<close> every swap index is the loop index, so the deck keeps the order of
  \<open>createDeck\<close>; with \<open>weapon_first\<close> the one swap that differs, at index 26, brings the
  two of diamonds to the front. \<open>lcg\<close> is a linear congruential generator on the
  integers, whose swap indices depend on the seed. With \<open>all_nan\<close> every swap index is
  NaN, as it is in the source for the seed NaN; with \<open>overshoot\<close> the first swap index
  is 44, as it is in the source when the first value of the generator rounds to 1.\<close>

definition no_swap :: "nat js_math" where
  "no_swap = \<lparr>sin_times = (\<lambda>s. s), frac = (\<lambda>s. s), floor_times = (\<lambda>r n. Some (n - 1))\<rparr>"

definition weapon_first :: "nat js_math" where
  "weapon_first =
     \<lparr>sin_times = (\<lambda>s. s), frac = (\<lambda>s. s),
      floor_times = (\<lambda>r n. if n = 27 then Some 0 else Some (n - 1))\<rparr>"




definition env0 :: "nat js_env" where
  "env0 = \<lparr>now = 0, random = (\<lambda>k. 0)\<rparr>"


text \<open>The state of the weapon example of \<open>resolveMonster\<close>'s comment: weapon 7, last
  defeated 9.\<close>

definition weapon_example :: "nat game" where
  "weapon_example =
     \<lparr>seed = 1, health = 20, maxHealth = 20, turn = 1, deck = [], discard = [],
      room = map Card [\<lparr>suit = Spades, rank = ''8'', cvalue = 8\<rparr>,
              \<lparr>suit = Spades, rank = ''10'', cvalue = 10\<rparr>,
              \<lparr>suit = Hearts, rank = ''5'', cvalue = 5\<rparr>,
              \<lparr>suit = Hearts, rank = ''9'', cvalue = 9\<rparr>],
      weapon = Some \<lparr>wvalue = 7, lastDefeated = Some 9,
                     defeatedMonsters = [\<lparr>suit = Clubs, rank = ''9'', cvalue = 9\<rparr>]\<rparr>,
      canAvoid = True, roomCarriedCard = None, potionUsedThisTurn = False,
      selectedCards = [], gameOver = False, gameWon = False, defeatingCard = None,
      eventLog = []\<rparr>"

text \<open>The carried card as a list: what \<open>drawRoom\<close> puts into the room before it
  draws.\<close>

definition carried_list :: "'n game \<Rightarrow> slot list" where
  "carried_list g = (case roomCarriedCard g of None \<Rightarrow> [] | Some c \<Rightarrow> [Card c])"

text \<open>A state before the last draw: health 15, a carried card and two cards in the
  deck.\<close>

definition last_room_example :: "nat game" where
  "last_room_example =
     \<lparr>seed = 1, health = 15, maxHealth = 20, turn = 11,
      deck = map Card [\<lparr>suit = Hearts, rank = ''2'', cvalue = 2\<rparr>,
              \<lparr>suit = Clubs, rank = ''3'', cvalue = 3\<rparr>],
      discard = [], room = [], weapon = None, canAvoid = True,
      roomCarriedCard = Some \<lparr>suit = Diamonds, rank = ''4'', cvalue = 4\<rparr>,
      potionUsedThisTurn = True, selectedCards = [], gameOver = False, gameWon = False,
      defeatingCard = None, eventLog = []\<rparr>"

text \<open>A room with two potions and a weapon, at health 5, with the potions selected
  first and last.\<close>

definition potion_example :: "nat game" where
  "potion_example =
     \<lparr>seed = 1, health = 5, maxHealth = 20, turn = 1, deck = [], discard = [],
      room = map Card [\<lparr>suit = Hearts, rank = ''5'', cvalue = 5\<rparr>,
              \<lparr>suit = Hearts, rank = ''9'', cvalue = 9\<rparr>,
              \<lparr>suit = Diamonds, rank = ''3'', cvalue = 3\<rparr>,
              \<lparr>suit = Spades, rank = ''10'', cvalue = 10\<rparr>],
      weapon = None, canAvoid = True, roomCarriedCard = None, potionUsedThisTurn = False,
      selectedCards = [0, 2, 1], gameOver = False, gameWon = False, defeatingCard = None,
      eventLog = []\<rparr>"

text \<open>One round of the loop of \<open>faceRoom\<close> after the rounds before it: nothing if
  one of them raised or ended the game, else the card \<open>room[index]\<close> is resolved, which
  raises when there is none. And the statements of \<open>faceRoom\<close> between the loop and
  the final draw, when \<open>room[carriedIndex]\<close> is \<open>c\<close>.\<close>

fun resolve_next :: "error option \<times> 'n game \<Rightarrow> card option \<Rightarrow> error option \<times> 'n game" where
  "resolve_next (Some err, g) c = (Some err, g)"
| "resolve_next (None, g) None = (if gameOver g then (None, g) else (Some TypeError, g))"
| "resolve_next (None, g) (Some c) = (if gameOver g then (None, g) else resolve_card g c)"

definition leave_room :: "'n game \<Rightarrow> card option \<Rightarrow> 'n game" where
  "leave_room g c = g\<lparr>roomCarriedCard := c, room := [], canAvoid := True, selectedCards := []\<rparr>"


text \<open>Runs of the model. \<open>fresh_game\<close> is the state after \<open>reset\<close> with the seed 1 and the
  generator \<open>no_swap\<close>. Facing the first room with the indices 1, 2, 3 and selecting 2,
  3, 1 in the second room leads to \<open>before_loss\<close>; \<open>faceRoom\<close> there leads to
  \<open>lost_game\<close>. Calling \<open>drawRoom\<close> twice after \<open>reset\<close> leads to \<open>dropped_game\<close>.\<close>

definition fresh_game :: "nat game" where
  "fresh_game =
     \<lparr>seed = 1, health = 20, maxHealth = 20, turn = 0, deck = map Card createDeck, discard = [],
      room = [], weapon = None, canAvoid = True, roomCarriedCard = None,
      potionUsedThisTurn = False, selectedCards = [], gameOver = False,
      gameWon = False, defeatingCard = None, eventLog = [(GameStarted, Info)]\<rparr>"

definition losing_ops :: "op list" where
  "losing_ops = [DrawRoom, SelectCard 1, SelectCard 2, SelectCard 3, FaceRoom,
                 SelectCard 2, SelectCard 3, SelectCard 1]"

definition before_loss :: "nat game" where
  "before_loss =
     \<lparr>seed = 1, health = 8, maxHealth = 20, turn = 2, deck = map Card (drop 7 createDeck),
      discard = [\<lparr>suit = Clubs, rank = ''3'', cvalue = 3\<rparr>,
                 \<lparr>suit = Clubs, rank = ''4'', cvalue = 4\<rparr>,
                 \<lparr>suit = Clubs, rank = ''5'', cvalue = 5\<rparr>],
      room = map Card [\<lparr>suit = Clubs, rank = ''2'', cvalue = 2\<rparr>,
              \<lparr>suit = Clubs, rank = ''6'', cvalue = 6\<rparr>,
              \<lparr>suit = Clubs, rank = ''7'', cvalue = 7\<rparr>,
              \<lparr>suit = Clubs, rank = ''8'', cvalue = 8\<rparr>],
      weapon = None, canAvoid = True, roomCarriedCard = None, potionUsedThisTurn = False,
      selectedCards = [2, 3, 1], gameOver = False, gameWon = False, defeatingCard = None,
      eventLog = [(GameStarted, Info), (EnteredRoom 1 4, Turn),
                  (BareHanded Clubs ''3'' 3 3, Danger), (BareHanded Clubs ''4'' 4 4, Danger),
                  (BareHanded Clubs ''5'' 5 5, Danger), (Carried Clubs ''2'', Info),
                  (EnteredRoom 2 4, Turn)]\<rparr>"

definition lost_game :: "nat game" where
  "lost_game =
     \<lparr>seed = 1, health = - 7, maxHealth = 20, turn = 2, deck = map Card (drop 7 createDeck),
      discard = [\<lparr>suit = Clubs, rank = ''3'', cvalue = 3\<rparr>,
                 \<lparr>suit = Clubs, rank = ''4'', cvalue = 4\<rparr>,
                 \<lparr>suit = Clubs, rank = ''5'', cvalue = 5\<rparr>,
                 \<lparr>suit = Clubs, rank = ''7'', cvalue = 7\<rparr>,
                 \<lparr>suit = Clubs, rank = ''8'', cvalue = 8\<rparr>],
      room = [], weapon = None, canAvoid = True,
      roomCarriedCard = Some \<lparr>suit = Clubs, rank = ''2'', cvalue = 2\<rparr>,
      potionUsedThisTurn = False, selectedCards = [], gameOver = True, gameWon = False,
      defeatingCard = Some \<lparr>suit = Clubs, rank = ''8'', cvalue = 8\<rparr>,
      eventLog = [(GameStarted, Info), (EnteredRoom 1 4, Turn),
                  (BareHanded Clubs ''3'' 3 3, Danger), (BareHanded Clubs ''4'' 4 4, Danger),
                  (BareHanded Clubs ''5'' 5 5, Danger), (Carried Clubs ''2'', Info),
                  (EnteredRoom 2 4, Turn), (BareHanded Clubs ''7'' 7 7, Danger),
                  (BareHanded Clubs ''8'' 8 8, Danger),
                  (Defeated (- 7) (- 196) 23, Danger)]\<rparr>"

definition dropped_game :: "nat game" where
  "dropped_game =
     \<lparr>seed = 1, health = 20, maxHealth = 20, turn = 2, deck = map Card (drop 8 createDeck), discard = [],
      room = map Card [\<lparr>suit = Clubs, rank = ''6'', cvalue = 6\<rparr>,
              \<lparr>suit = Clubs, rank = ''7'', cvalue = 7\<rparr>,
              \<lparr>suit = Clubs, rank = ''8'', cvalue = 8\<rparr>,
              \<lparr>suit = Clubs, rank = ''9'', cvalue = 9\<rparr>],
      weapon = None, canAvoid = True, roomCarriedCard = None, potionUsedThisTurn = False,
      selectedCards = [], gameOver = False, gameWon = False, defeatingCard = None,
      eventLog = [(GameStarted, Info), (EnteredRoom 1 4, Turn), (EnteredRoom 2 4, Turn)]\<rparr>"

text \<open>The deck after \<open>reset\<close> with the generator \<open>weapon_first\<close>, and the state after
  facing its first room with the indices 0, 1, 2: the two of diamonds is equipped.\<close>

definition weapon_first_deck :: "card list" where
  "weapon_first_deck = createDeck[26 := createDeck ! 0, 0 := createDeck ! 26]"

definition armed_game :: "nat game" where
  "armed_game =
     \<lparr>seed = 1, health = 15, maxHealth = 20, turn = 2, deck = map Card (drop 7 weapon_first_deck),
      discard = [\<lparr>suit = Clubs, rank = ''4'', cvalue = 4\<rparr>],
      room = map Card [\<lparr>suit = Clubs, rank = ''5'', cvalue = 5\<rparr>,
              \<lparr>suit = Clubs, rank = ''6'', cvalue = 6\<rparr>,
              \<lparr>suit = Clubs, rank = ''7'', cvalue = 7\<rparr>,
              \<lparr>suit = Clubs, rank = ''8'', cvalue = 8\<rparr>],
      weapon = Some \<lparr>wvalue = 2, lastDefeated = Some 3,
                     defeatedMonsters = [\<lparr>suit = Clubs, rank = ''3'', cvalue = 3\<rparr>]\<rparr>,
      canAvoid = True, roomCarriedCard = None, potionUsedThisTurn = False,
      selectedCards = [], gameOver = False, gameWon = False, defeatingCard = None,
      eventLog = [(GameStarted, Info), (EnteredRoom 1 4, Turn),
                  (EquippedWeapon Diamonds ''2'' 2, Success),
                  (Fought Clubs ''3'' 3 2 1 3, Warning),
                  (TooStrong Clubs ''4'' 4 (Some 3) 4, Danger),
                  (Carried Clubs ''5'', Info), (EnteredRoom 2 4, Turn)]\<rparr>"

section \<open>Field lemmas\<close>

lemma logEvent_fields [simp]:
  "health (logEvent g msg ty) = health g"
  "maxHealth (logEvent g msg ty) = maxHealth g"
  "deck (logEvent g msg ty) = deck g"
  "discard (logEvent g msg ty) = discard g"
  "room (logEvent g msg ty) = room g"
  "weapon (logEvent g msg ty) = weapon g"
  "canAvoid (logEvent g msg ty) = canAvoid g"
  "roomCarriedCard (logEvent g msg ty) = roomCarriedCard g"
  "potionUsedThisTurn (logEvent g msg ty) = potionUsedThisTurn g"
  "selectedCards (logEvent g msg ty) = selectedCards g"
  "gameOver (logEvent g msg ty) = gameOver g"
  "gameWon (logEvent g msg ty) = gameWon g"
  "defeatingCard (logEvent g msg ty) = defeatingCard g"
  "turn (logEvent g msg ty) = turn g"
  "seed (logEvent g msg ty) = seed g"
  "eventLog (logEvent g msg ty) = eventLog g @ [(msg, ty)]"
  by (simp_all add: logEvent_def)

lemma endGame_fields [simp]:
  "health (snd (endGame g won)) = health g"
  "maxHealth (snd (endGame g won)) = maxHealth g"
  "deck (snd (endGame g won)) = deck g"
  "discard (snd (endGame g won)) = discard g"
  "room (snd (endGame g won)) = room g"
  "weapon (snd (endGame g won)) = weapon g"
  "canAvoid (snd (endGame g won)) = canAvoid g"
  "roomCarriedCard (snd (endGame g won)) = roomCarriedCard g"
  "potionUsedThisTurn (snd (endGame g won)) = potionUsedThisTurn g"
  "selectedCards (snd (endGame g won)) = selectedCards g"
  "gameOver (snd (endGame g won)) = True"
  "gameWon (snd (endGame g won)) = won"
  "defeatingCard (snd (endGame g won)) = defeatingCard g"
  "turn (snd (endGame g won)) = turn g"
  "seed (snd (endGame g won)) = seed g"
  by (simp_all add: endGame_def Let_def split: sum.splits)

lemma endGame_won [simp]: "fst (endGame g True) = None"
  by (simp add: endGame_def Let_def)

lemma take_damage_fields [simp]:
  "maxHealth (snd (take_damage g c d)) = maxHealth g"
  "deck (snd (take_damage g c d)) = deck g"
  "discard (snd (take_damage g c d)) = discard g"
  "room (snd (take_damage g c d)) = room g"
  "weapon (snd (take_damage g c d)) = weapon g"
  "canAvoid (snd (take_damage g c d)) = canAvoid g"
  "roomCarriedCard (snd (take_damage g c d)) = roomCarriedCard g"
  "potionUsedThisTurn (snd (take_damage g c d)) = potionUsedThisTurn g"
  "selectedCards (snd (take_damage g c d)) = selectedCards g"
  "turn (snd (take_damage g c d)) = turn g"
  "seed (snd (take_damage g c d)) = seed g"
  by (simp_all add: take_damage_def Let_def)

lemma take_damage_health: "health (snd (take_damage g c d)) = health g - max 0 d"
  by (simp add: take_damage_def Let_def)

section \<open>resolveMonster\<close>

text \<open>Claim C1. \<open>resolveMonster\<close> on a card of value at least 0 (every card of the deck
  has a value from 2 to 14). If a weapon is equipped and it has defeated nothing yet or
  the card's value is at most \<open>lastDefeated\<close>, the weapon is used: health drops by
  \<open>max(0, card.value - weapon.value)\<close>, the card is appended to \<open>defeatedMonsters\<close>,
  \<open>lastDefeated\<close> becomes the card's value, and the discard pile is unchanged. Otherwise
  (no weapon, or the value exceeds \<open>lastDefeated\<close>) health drops by the full value, the
  card is pushed to the discard pile and the weapon is unchanged. This is the state
  \<open>resolveMonster\<close> leaves, whether it returns or \<open>endGame\<close> raises.\<close>

theorem resolveMonster_weapon_or_bare_handed:
  assumes "0 \<le> cvalue c"
  shows "(\<forall>w. weapon g = Some w
              \<and> (lastDefeated w = None \<or> (\<exists>l. lastDefeated w = Some l \<and> cvalue c \<le> l)) \<longrightarrow>
            health (snd (resolveMonster g c)) = health g - max 0 (cvalue c - wvalue w)
          \<and> weapon (snd (resolveMonster g c)) =
              Some (w\<lparr>lastDefeated := Some (cvalue c),
                      defeatedMonsters := defeatedMonsters w @ [c]\<rparr>)
          \<and> discard (snd (resolveMonster g c)) = discard g)
       \<and> (weapon g = None
            \<or> (\<exists>w l. weapon g = Some w \<and> lastDefeated w = Some l \<and> cvalue c > l) \<longrightarrow>
            health (snd (resolveMonster g c)) = health g - cvalue c
          \<and> discard (snd (resolveMonster g c)) = discard g @ [c]
          \<and> weapon (snd (resolveMonster g c)) = weapon g)"
  using assms
  by (auto simp: resolveMonster_def Let_def take_damage_health split: option.splits)

text \<open>The example of the source's comment and of the specification: with weapon 7 and
  last defeated 9, a monster of value 8 is fought with the weapon (1 damage, last defeated
  8), a monster of value 10 bare-handed (10 damage).\<close>

theorem resolveMonster_weapon_or_bare_handed_witness:
  "(0 \<le> cvalue \<lparr>suit = Spades, rank = ''8'', cvalue = 8\<rparr>
    \<and> weapon weapon_example \<noteq> None
    \<and> health (snd (resolveMonster weapon_example \<lparr>suit = Spades, rank = ''8'', cvalue = 8\<rparr>)) = 19
    \<and> weapon (snd (resolveMonster weapon_example \<lparr>suit = Spades, rank = ''8'', cvalue = 8\<rparr>)) =
        Some \<lparr>wvalue = 7, lastDefeated = Some 8,
              defeatedMonsters = [\<lparr>suit = Clubs, rank = ''9'', cvalue = 9\<rparr>,
                                  \<lparr>suit = Spades, rank = ''8'', cvalue = 8\<rparr>]\<rparr>
    \<and> discard (snd (resolveMonster weapon_example \<lparr>suit = Spades, rank = ''8'', cvalue = 8\<rparr>)) = [])
   \<and> (0 \<le> cvalue \<lparr>suit = Spades, rank = ''10'', cvalue = 10\<rparr>
    \<and> health (snd (resolveMonster weapon_example \<lparr>suit = Spades, rank = ''10'', cvalue = 10\<rparr>)) = 10
    \<and> discard (snd (resolveMonster weapon_example \<lparr>suit = Spades, rank = ''10'', cvalue = 10\<rparr>)) =
        [\<lparr>suit = Spades, rank = ''10'', cvalue = 10\<rparr>]
    \<and> weapon (snd (resolveMonster weapon_example \<lparr>suit = Spades, rank = ''10'', cvalue = 10\<rparr>)) =
        weapon weapon_example)"
  using resolveMonster_weapon_or_bare_handed
          [of "\<lparr>suit = Spades, rank = ''8'', cvalue = 8\<rparr>" weapon_example]
        resolveMonster_weapon_or_bare_handed
          [of "\<lparr>suit = Spades, rank = ''10'', cvalue = 10\<rparr>" weapon_example]
  by (simp add: weapon_example_def)

section \<open>drawRoom\<close>

lemma draw_loop_take_drop:
  "draw_loop rm dk = (rm @ map read_slot (take (4 - length rm) dk), drop (4 - length rm) dk)"
proof (induction dk arbitrary: rm)
  case Nil
  then show ?case by simp
next
  case (Cons c dk)
  show ?case
  proof (cases "length rm < 4")
    case True
    then have "4 - length rm = Suc (4 - length (rm @ [c]))" by simp
    with True Cons show ?thesis by simp
  next
    case False
    then show ?thesis by simp
  qed
qed

lemma read_slot_Card [simp]: "read_slot (Card c) = Card c"
  by (simp add: read_slot_def)

lemma drawRoom_over [simp]: "gameOver g \<Longrightarrow> drawRoom g = (False, g)"
  by (simp add: drawRoom_def)

lemma drawRoom_room:
  "\<not> gameOver g \<Longrightarrow> room (snd (drawRoom g)) = map read_slot (take 4 (carried_list g @ deck g))"
  by (cases "roomCarriedCard g")
    (simp_all add: drawRoom_def Let_def draw_loop_take_drop carried_list_def)

lemma drawRoom_deck:
  "\<not> gameOver g \<Longrightarrow> deck (snd (drawRoom g)) = drop 4 (carried_list g @ deck g)"
  by (cases "roomCarriedCard g")
    (simp_all add: drawRoom_def Let_def draw_loop_take_drop carried_list_def)

lemma drawRoom_fields:
  assumes "\<not> gameOver g"
  shows "health (snd (drawRoom g)) = health g"
    and "maxHealth (snd (drawRoom g)) = maxHealth g"
    and "discard (snd (drawRoom g)) = discard g"
    and "weapon (snd (drawRoom g)) = weapon g"
    and "canAvoid (snd (drawRoom g)) = canAvoid g"
    and "roomCarriedCard (snd (drawRoom g)) = None"
    and "potionUsedThisTurn (snd (drawRoom g)) = False"
    and "selectedCards (snd (drawRoom g)) = []"
    and "defeatingCard (snd (drawRoom g)) = defeatingCard g"
    and "seed (snd (drawRoom g)) = seed g"
    and "turn (snd (drawRoom g)) = turn g + 1"
  using assms
  by (cases "roomCarriedCard g"; simp add: drawRoom_def Let_def draw_loop_take_drop)+

lemma drawRoom_gameOver:
  assumes "\<not> gameOver g"
  shows "gameOver (snd (drawRoom g)) \<longleftrightarrow> length (carried_list g @ deck g) < 4"
  using assms
  by (cases "roomCarriedCard g";
      simp add: drawRoom_def Let_def draw_loop_take_drop carried_list_def; arith)

lemma drawRoom_gameWon:
  assumes "\<not> gameOver g"
  shows "gameWon (snd (drawRoom g)) \<longleftrightarrow> length (carried_list g @ deck g) < 4 \<or> gameWon g"
  using assms
  by (cases "roomCarriedCard g";
      simp add: drawRoom_def Let_def draw_loop_take_drop carried_list_def; arith)

lemma drawRoom_fst:
  assumes "\<not> gameOver g"
  shows "fst (drawRoom g) \<longleftrightarrow> \<not> length (carried_list g @ deck g) < 4"
  using assms
  by (cases "roomCarriedCard g";
      simp add: drawRoom_def Let_def draw_loop_take_drop carried_list_def; arith)

text \<open>Claim C5. \<open>drawRoom\<close> in a game that is not over. The room becomes the carried
  card, if there is one, followed by the entries from the front of the deck as \<open>shift\<close>
  returns them, four in all or as many as there are. The game is over afterwards exactly when the room then holds
  fewer than 4 cards and the deck is empty; in that case \<open>drawRoom\<close> returns false, the
  game is won, and \<open>getScore\<close> is the health. Otherwise it returns true.\<close>

theorem drawRoom_win:
  assumes "\<not> gameOver g"
  shows "room (snd (drawRoom g)) = map read_slot (take 4 (carried_list g @ deck g))
       \<and> deck (snd (drawRoom g)) = drop 4 (carried_list g @ deck g)
       \<and> (gameOver (snd (drawRoom g)) \<longleftrightarrow>
            length (room (snd (drawRoom g))) < 4 \<and> deck (snd (drawRoom g)) = [])
       \<and> (gameOver (snd (drawRoom g)) \<longrightarrow>
            fst (drawRoom g) = False \<and> gameWon (snd (drawRoom g))
            \<and> health (snd (drawRoom g)) = health g
            \<and> getScore (snd (drawRoom g)) = Inr (health g))
       \<and> (\<not> gameOver (snd (drawRoom g)) \<longrightarrow> fst (drawRoom g) = True)"
proof -
  let ?g' = "snd (drawRoom g)"
  let ?all = "carried_list g @ deck g"
  have r: "room ?g' = map read_slot (take 4 ?all)" and d: "deck ?g' = drop 4 ?all"
    using assms by (rule drawRoom_room, rule drawRoom_deck)
  have o: "gameOver ?g' \<longleftrightarrow> length ?all < 4" using assms by (rule drawRoom_gameOver)
  have w: "gameWon ?g' \<longleftrightarrow> length ?all < 4 \<or> gameWon g" using assms by (rule drawRoom_gameWon)
  have f: "fst (drawRoom g) \<longleftrightarrow> \<not> length ?all < 4" using assms by (rule drawRoom_fst)
  have h: "health ?g' = health g" using assms by (rule drawRoom_fields)
  have "length (room ?g') < 4 \<and> deck ?g' = [] \<longleftrightarrow> length ?all < 4"
    unfolding r d by auto
  then show ?thesis
    using r d o w f h by (simp add: getScore_def)
qed

text \<open>With health 15, one carried card and two cards left in the deck, the room gets
  three cards, the game is won and the score is 15.\<close>

theorem drawRoom_win_witness:
  "\<not> gameOver last_room_example
   \<and> room (snd (drawRoom last_room_example)) =
       map Card [\<lparr>suit = Diamonds, rank = ''4'', cvalue = 4\<rparr>,
        \<lparr>suit = Hearts, rank = ''2'', cvalue = 2\<rparr>,
        \<lparr>suit = Clubs, rank = ''3'', cvalue = 3\<rparr>]
   \<and> deck (snd (drawRoom last_room_example)) = []
   \<and> gameOver (snd (drawRoom last_room_example))
   \<and> gameWon (snd (drawRoom last_room_example))
   \<and> fst (drawRoom last_room_example) = False
   \<and> getScore (snd (drawRoom last_room_example)) = Inr 15"
  using drawRoom_win [of last_room_example]
  by (simp add: last_room_example_def carried_list_def)

section \<open>Resolving a card\<close>

lemma resolvePotion_fields [simp]:
  "maxHealth (resolvePotion g c) = maxHealth g"
  "deck (resolvePotion g c) = deck g"
  "discard (resolvePotion g c) = discard g @ [c]"
  "room (resolvePotion g c) = room g"
  "weapon (resolvePotion g c) = weapon g"
  "canAvoid (resolvePotion g c) = canAvoid g"
  "roomCarriedCard (resolvePotion g c) = roomCarriedCard g"
  "potionUsedThisTurn (resolvePotion g c) = True"
  "selectedCards (resolvePotion g c) = selectedCards g"
  "gameOver (resolvePotion g c) = gameOver g"
  "gameWon (resolvePotion g c) = gameWon g"
  "defeatingCard (resolvePotion g c) = defeatingCard g"
  by (simp_all add: resolvePotion_def Let_def)

lemma resolvePotion_health:
  "health (resolvePotion g c) =
     (if potionUsedThisTurn g then health g else min (maxHealth g) (health g + cvalue c))"
  by (simp add: resolvePotion_def Let_def)

lemma resolveWeapon_fields [simp]:
  "health (resolveWeapon g c) = health g"
  "maxHealth (resolveWeapon g c) = maxHealth g"
  "deck (resolveWeapon g c) = deck g"
  "room (resolveWeapon g c) = room g"
  "canAvoid (resolveWeapon g c) = canAvoid g"
  "roomCarriedCard (resolveWeapon g c) = roomCarriedCard g"
  "potionUsedThisTurn (resolveWeapon g c) = potionUsedThisTurn g"
  "selectedCards (resolveWeapon g c) = selectedCards g"
  "gameOver (resolveWeapon g c) = gameOver g"
  "gameWon (resolveWeapon g c) = gameWon g"
  "defeatingCard (resolveWeapon g c) = defeatingCard g"
  by (cases "weapon g"; simp add: resolveWeapon_def Let_def)+

lemma resolveMonster_fields [simp]:
  "maxHealth (snd (resolveMonster g c)) = maxHealth g"
  "deck (snd (resolveMonster g c)) = deck g"
  "room (snd (resolveMonster g c)) = room g"
  "canAvoid (snd (resolveMonster g c)) = canAvoid g"
  "roomCarriedCard (snd (resolveMonster g c)) = roomCarriedCard g"
  "potionUsedThisTurn (snd (resolveMonster g c)) = potionUsedThisTurn g"
  "selectedCards (snd (resolveMonster g c)) = selectedCards g"
  by (simp_all add: resolveMonster_def Let_def split: option.splits)

lemma resolve_card_fields [simp]:
  "maxHealth (snd (resolve_card g c)) = maxHealth g"
  "deck (snd (resolve_card g c)) = deck g"
  "room (snd (resolve_card g c)) = room g"
  "canAvoid (snd (resolve_card g c)) = canAvoid g"
  "roomCarriedCard (snd (resolve_card g c)) = roomCarriedCard g"
  "selectedCards (snd (resolve_card g c)) = selectedCards g"
  by (simp_all add: resolve_card_def split: card_type.splits)

lemma resolveMonster_health: "health (snd (resolveMonster g c)) \<le> health g"
  by (simp add: resolveMonster_def Let_def take_damage_health split: option.splits)

lemma resolveMonster_over: "gameOver g \<Longrightarrow> gameOver (snd (resolveMonster g c))"
  by (simp add: resolveMonster_def Let_def take_damage_def split: option.splits)

lemma resolve_card_potion:
  "getCardType c = Potion \<Longrightarrow> resolve_card g c = (None, resolvePotion g c)"
  by (simp add: resolve_card_def)

lemma resolve_card_flag:
  "potionUsedThisTurn g \<Longrightarrow> potionUsedThisTurn (snd (resolve_card g c))"
  by (simp add: resolve_card_def split: card_type.splits)

lemma resolve_card_no_heal:
  "potionUsedThisTurn g \<Longrightarrow> health (snd (resolve_card g c)) \<le> health g"
  by (simp add: resolve_card_def resolvePotion_health resolveMonster_health
      split: card_type.splits)

lemma resolve_loop_no_heal:
  "potionUsedThisTurn g \<Longrightarrow>
     potionUsedThisTurn (snd (resolve_loop g idxs)) \<and> health (snd (resolve_loop g idxs)) \<le> health g"
proof (induction idxs arbitrary: g)
  case Nil
  then show ?case by simp
next
  case (Cons i idxs)
  show ?case
  proof (cases "card_at (room g) i")
    case None
    then show ?thesis using Cons.prems by simp
  next
    case (Some c)
    obtain err g' where r: "resolve_card g c = (err, g')" by (cases "resolve_card g c")
    have f: "potionUsedThisTurn g'" and h: "health g' \<le> health g"
      using resolve_card_flag [OF Cons.prems, of c] resolve_card_no_heal [OF Cons.prems, of c] r
      by simp_all
    show ?thesis
    proof (cases "err = None \<and> \<not> gameOver g'")
      case True
      then have "resolve_loop g (i # idxs) = resolve_loop g' idxs" using Some r by simp
      then show ?thesis using Cons.IH [OF f] h by simp
    next
      case False
      then have "snd (resolve_loop g (i # idxs)) = g'"
        using Some r by (cases err) auto
      then show ?thesis using f h by simp
    qed
  qed
qed

lemma resolve_loop_two_potions:
  assumes "card_at (room g) a = Some p1" "card_at (room g) b = Some p2"
    and "getCardType p1 = Potion" "getCardType p2 = Potion" and "\<not> gameOver g"
  shows "resolve_loop g (a # b # rest) = resolve_loop (resolvePotion (resolvePotion g p1) p2) rest"
  using assms by (simp add: resolve_card_potion)

lemma resolve_loop_potion_first:
  assumes "card_at (room g) a = Some p" "getCardType p = Potion" "\<not> gameOver g"
  shows "resolve_loop g (a # rest) = resolve_loop (resolvePotion g p) rest"
  using assms by (simp add: resolve_card_potion)

section \<open>resolvePotion\<close>

text \<open>Claim C6. At most one potion heals in a room. A potion resolved while
  \<open>potionUsedThisTurn\<close> is false sets health to \<open>min(maxHealth, health + value)\<close>, which
  is at most \<open>maxHealth\<close>; a potion resolved while the flag is true leaves health as it
  is. Either way the flag is true afterwards and the card goes to the discard pile, so a
  second potion changes nothing but the discard pile. Resolving a weapon or a monster
  leaves the flag as it is. So in the loop of \<open>faceRoom\<close>, from a state in which the
  flag is set, whatever cards are resolved at whatever positions, the flag stays set and
  health never rises; in particular, after a first potion the rest of the loop does not
  heal, and two potions selected one after the other are resolved in that order and
  only the first heals. \<open>drawRoom\<close> clears the flag.\<close>

theorem one_potion_per_room:
  "(\<not> potionUsedThisTurn g \<longrightarrow>
      health (resolvePotion g c) = min (maxHealth g) (health g + cvalue c)
    \<and> health (resolvePotion g c) \<le> maxHealth g)
   \<and> (potionUsedThisTurn g \<longrightarrow> health (resolvePotion g c) = health g)
   \<and> potionUsedThisTurn (resolvePotion g c)
   \<and> discard (resolvePotion g c) = discard g @ [c]
   \<and> health (resolvePotion (resolvePotion g c) c') = health (resolvePotion g c)
   \<and> discard (resolvePotion (resolvePotion g c) c') = discard g @ [c, c']
   \<and> potionUsedThisTurn (resolveWeapon g c) = potionUsedThisTurn g
   \<and> potionUsedThisTurn (snd (resolveMonster g c)) = potionUsedThisTurn g
   \<and> (potionUsedThisTurn g \<longrightarrow>
        potionUsedThisTurn (snd (resolve_card g c))
        \<and> health (snd (resolve_card g c)) \<le> health g
        \<and> potionUsedThisTurn (snd (resolve_loop g idxs))
        \<and> health (snd (resolve_loop g idxs)) \<le> health g)
   \<and> (card_at (room g) a = Some p1 \<and> getCardType p1 = Potion
        \<and> \<not> gameOver g \<and> \<not> potionUsedThisTurn g \<longrightarrow>
        resolve_loop g (a # rest) = resolve_loop (resolvePotion g p1) rest
        \<and> health (resolvePotion g p1) = min (maxHealth g) (health g + cvalue p1)
        \<and> potionUsedThisTurn (snd (resolve_loop g (a # rest)))
        \<and> health (snd (resolve_loop g (a # rest))) \<le> health (resolvePotion g p1))
   \<and> (card_at (room g) a = Some p1 \<and> card_at (room g) b = Some p2
        \<and> getCardType p1 = Potion \<and> getCardType p2 = Potion
        \<and> \<not> gameOver g \<and> \<not> potionUsedThisTurn g \<longrightarrow>
        resolve_loop g (a # b # rest) = resolve_loop (resolvePotion (resolvePotion g p1) p2) rest
        \<and> health (resolvePotion (resolvePotion g p1) p2) = min (maxHealth g) (health g + cvalue p1))
   \<and> (\<not> gameOver g \<longrightarrow> \<not> potionUsedThisTurn (snd (drawRoom g)))"
proof -
  have c1: "\<not> potionUsedThisTurn g \<longrightarrow>
      health (resolvePotion g c) = min (maxHealth g) (health g + cvalue c)
    \<and> health (resolvePotion g c) \<le> maxHealth g"
    by (simp add: resolvePotion_health)
  have c2: "potionUsedThisTurn g \<longrightarrow> health (resolvePotion g c) = health g"
    by (simp add: resolvePotion_health)
  have c3: "potionUsedThisTurn (resolvePotion g c)"
    "discard (resolvePotion g c) = discard g @ [c]"
    "health (resolvePotion (resolvePotion g c) c') = health (resolvePotion g c)"
    "discard (resolvePotion (resolvePotion g c) c') = discard g @ [c, c']"
    "potionUsedThisTurn (resolveWeapon g c) = potionUsedThisTurn g"
    "potionUsedThisTurn (snd (resolveMonster g c)) = potionUsedThisTurn g"
    by (simp_all add: resolvePotion_health)
  have c4: "potionUsedThisTurn g \<longrightarrow>
        potionUsedThisTurn (snd (resolve_card g c))
        \<and> health (snd (resolve_card g c)) \<le> health g
        \<and> potionUsedThisTurn (snd (resolve_loop g idxs))
        \<and> health (snd (resolve_loop g idxs)) \<le> health g"
    using resolve_loop_no_heal [of g idxs] resolve_card_flag [of g c]
      resolve_card_no_heal [of g c] by blast
  have c5: "card_at (room g) a = Some p1 \<and> getCardType p1 = Potion
        \<and> \<not> gameOver g \<and> \<not> potionUsedThisTurn g \<longrightarrow>
        resolve_loop g (a # rest) = resolve_loop (resolvePotion g p1) rest
        \<and> health (resolvePotion g p1) = min (maxHealth g) (health g + cvalue p1)
        \<and> potionUsedThisTurn (snd (resolve_loop g (a # rest)))
        \<and> health (snd (resolve_loop g (a # rest))) \<le> health (resolvePotion g p1)"
  proof (intro impI, elim conjE)
    assume h: "card_at (room g) a = Some p1" "getCardType p1 = Potion" "\<not> gameOver g"
      "\<not> potionUsedThisTurn g"
    have e: "resolve_loop g (a # rest) = resolve_loop (resolvePotion g p1) rest"
      using h(1-3) by (rule resolve_loop_potion_first)
    have "potionUsedThisTurn (resolvePotion g p1)" by simp
    then have "potionUsedThisTurn (snd (resolve_loop (resolvePotion g p1) rest))
        \<and> health (snd (resolve_loop (resolvePotion g p1) rest)) \<le> health (resolvePotion g p1)"
      by (rule resolve_loop_no_heal)
    then show "resolve_loop g (a # rest) = resolve_loop (resolvePotion g p1) rest
        \<and> health (resolvePotion g p1) = min (maxHealth g) (health g + cvalue p1)
        \<and> potionUsedThisTurn (snd (resolve_loop g (a # rest)))
        \<and> health (snd (resolve_loop g (a # rest))) \<le> health (resolvePotion g p1)"
      unfolding e using h(4) by (simp add: resolvePotion_health)
  qed
  have c6: "card_at (room g) a = Some p1 \<and> card_at (room g) b = Some p2
        \<and> getCardType p1 = Potion \<and> getCardType p2 = Potion
        \<and> \<not> gameOver g \<and> \<not> potionUsedThisTurn g \<longrightarrow>
        resolve_loop g (a # b # rest) = resolve_loop (resolvePotion (resolvePotion g p1) p2) rest
        \<and> health (resolvePotion (resolvePotion g p1) p2) = min (maxHealth g) (health g + cvalue p1)"
    using resolve_loop_two_potions [of g a p1 b p2 rest] by (simp add: resolvePotion_health)
  have c7: "\<not> gameOver g \<longrightarrow> \<not> potionUsedThisTurn (snd (drawRoom g))"
    by (simp add: drawRoom_fields)
  show ?thesis using c1 c2 c3 c4 c5 c6 c7 by blast
qed

text \<open>At health 5 the potion of value 5 heals to 10 (from 17 it would heal to 20, not
  22); the potion of value 9 after it heals nothing, also with the weapon resolved in
  between: the loop over the indices 0, 2, 1 ends with health 10 and both potions
  discarded.\<close>

theorem one_potion_per_room_witness:
  "\<not> potionUsedThisTurn potion_example \<and> \<not> gameOver potion_example
   \<and> card_at (room potion_example) 0 = Some \<lparr>suit = Hearts, rank = ''5'', cvalue = 5\<rparr>
   \<and> card_at (room potion_example) 1 = Some \<lparr>suit = Hearts, rank = ''9'', cvalue = 9\<rparr>
   \<and> getCardType \<lparr>suit = Hearts, rank = ''5'', cvalue = 5\<rparr> = Potion
   \<and> getCardType \<lparr>suit = Hearts, rank = ''9'', cvalue = 9\<rparr> = Potion
   \<and> health (resolvePotion potion_example \<lparr>suit = Hearts, rank = ''5'', cvalue = 5\<rparr>) = 10
   \<and> health (resolvePotion (potion_example\<lparr>health := 17\<rparr>)
        \<lparr>suit = Hearts, rank = ''5'', cvalue = 5\<rparr>) = 20
   \<and> potionUsedThisTurn
        (resolvePotion potion_example \<lparr>suit = Hearts, rank = ''5'', cvalue = 5\<rparr>)
   \<and> health (resolvePotion
        (resolvePotion potion_example \<lparr>suit = Hearts, rank = ''5'', cvalue = 5\<rparr>)
        \<lparr>suit = Hearts, rank = ''9'', cvalue = 9\<rparr>) = 10
   \<and> discard (resolvePotion
        (resolvePotion potion_example \<lparr>suit = Hearts, rank = ''5'', cvalue = 5\<rparr>)
        \<lparr>suit = Hearts, rank = ''9'', cvalue = 9\<rparr>) =
        [\<lparr>suit = Hearts, rank = ''5'', cvalue = 5\<rparr>, \<lparr>suit = Hearts, rank = ''9'', cvalue = 9\<rparr>]
   \<and> resolve_loop potion_example [0, 1, 2] =
       resolve_loop (resolvePotion
        (resolvePotion potion_example \<lparr>suit = Hearts, rank = ''5'', cvalue = 5\<rparr>)
        \<lparr>suit = Hearts, rank = ''9'', cvalue = 9\<rparr>) [2]
   \<and> fst (resolve_loop potion_example [0, 2, 1]) = None
   \<and> health (snd (resolve_loop potion_example [0, 2, 1])) = 10
   \<and> potionUsedThisTurn (snd (resolve_loop potion_example [0, 2, 1]))
   \<and> discard (snd (resolve_loop potion_example [0, 2, 1])) =
        [\<lparr>suit = Hearts, rank = ''5'', cvalue = 5\<rparr>, \<lparr>suit = Hearts, rank = ''9'', cvalue = 9\<rparr>]
   \<and> \<not> potionUsedThisTurn (snd (drawRoom
        (resolvePotion potion_example \<lparr>suit = Hearts, rank = ''5'', cvalue = 5\<rparr>)))"
proof -
  have h: "\<not> potionUsedThisTurn potion_example" "\<not> gameOver potion_example"
    "card_at (room potion_example) 0 = Some \<lparr>suit = Hearts, rank = ''5'', cvalue = 5\<rparr>"
    "card_at (room potion_example) 1 = Some \<lparr>suit = Hearts, rank = ''9'', cvalue = 9\<rparr>"
    "getCardType \<lparr>suit = Hearts, rank = ''5'', cvalue = 5\<rparr> = Potion"
    "getCardType \<lparr>suit = Hearts, rank = ''9'', cvalue = 9\<rparr> = Potion"
    "health potion_example = 5" "maxHealth potion_example = 20" "discard potion_example = []"
    by (simp_all add: potion_example_def card_at_def at_index_def getCardType_def)
  have l: "fst (resolve_loop potion_example [0, 2, 1]) = None"
    "health (snd (resolve_loop potion_example [0, 2, 1])) = 10"
    "discard (snd (resolve_loop potion_example [0, 2, 1])) =
        [\<lparr>suit = Hearts, rank = ''5'', cvalue = 5\<rparr>, \<lparr>suit = Hearts, rank = ''9'', cvalue = 9\<rparr>]"
    by (simp_all add: potion_example_def card_at_def at_index_def getCardType_def
        resolve_card_def resolveWeapon_def resolvePotion_def Let_def)
  let ?p5 = "\<lparr>suit = Hearts, rank = ''5'', cvalue = 5\<rparr>"
  let ?p9 = "\<lparr>suit = Hearts, rank = ''9'', cvalue = 9\<rparr>"
  note t = one_potion_per_room [where g = potion_example and c = ?p5 and c' = ?p9
      and a = 0 and b = 1 and rest = "[2]" and ?p1.0 = ?p5 and ?p2.0 = ?p9]
  from t h have a1: "health (resolvePotion potion_example ?p5) = 10"
    "potionUsedThisTurn (resolvePotion potion_example ?p5)"
    "health (resolvePotion (resolvePotion potion_example ?p5) ?p9) = 10"
    "discard (resolvePotion (resolvePotion potion_example ?p5) ?p9) = [?p5, ?p9]"
    by simp_all
  from t h have a2: "resolve_loop potion_example [0, 1, 2] =
       resolve_loop (resolvePotion (resolvePotion potion_example ?p5) ?p9) [2]"
    by blast
  from one_potion_per_room [where g = potion_example and a = 0 and rest = "[2, 1]"
      and ?p1.0 = ?p5] h
  have a3: "potionUsedThisTurn (snd (resolve_loop potion_example [0, 2, 1]))"
    by blast
  from one_potion_per_room [where g = "potion_example\<lparr>health := 17\<rparr>" and c = ?p5]
  have a4: "health (resolvePotion (potion_example\<lparr>health := 17\<rparr>) ?p5) = 20"
    by (simp add: potion_example_def)
  from one_potion_per_room [where g = "resolvePotion potion_example ?p5"] h
  have a5: "\<not> potionUsedThisTurn (snd (drawRoom (resolvePotion potion_example ?p5)))"
    by simp
  show ?thesis
    using h(1-6) l a1 a2 a3 a4 a5 by blast
qed

section \<open>Refused calls\<close>

lemma avoidRoom_refused:
  "\<not> canAvoid g \<or> gameOver g \<or> length (room g) \<noteq> 4 \<Longrightarrow> avoidRoom g = (False, g)"
  by (auto simp: avoidRoom_def)

lemma faceRoom_refused:
  "length (selectedCards g) \<noteq> 3 \<or> gameOver g \<Longrightarrow> faceRoom g = Inr (False, g)"
  by (auto simp: faceRoom_def)










section \<open>canResolveCard\<close>

text \<open>Claim C10 as stated, that \<open>canResolve\<close> is true for every card and state, fails:
  for a potion, after a potion was used in the room, the source returns
  \<open>canResolve: false\<close>.\<close>

theorem canResolveCard_counterexample:
  "\<not> canResolve (canResolveCard (resolvePotion potion_example \<lparr>suit = Hearts, rank = ''5'', cvalue = 5\<rparr>)
        \<lparr>suit = Hearts, rank = ''9'', cvalue = 9\<rparr>)"
  by (simp add: canResolveCard_def getCardType_def)

text \<open>Claim C10, amended. \<open>canResolveCard\<close> returns a value and no state.
  For a potion while \<open>potionUsedThisTurn\<close> is set it returns \<open>canResolve = false\<close> with
  the reason \<open>Only one potion per room\<close>; resolving that card still proceeds, as
  \<open>resolvePotion\<close>, with health unchanged and the card discarded. For a monster whose
  value exceeds the equipped weapon's \<open>lastDefeated\<close> it returns \<open>canResolve = true\<close>
  with a reason and \<open>forceBareHanded = true\<close>. In every other case it returns
  \<open>canResolve = true\<close> alone. So \<open>canResolve\<close> is false exactly in the potion case.\<close>

theorem canResolveCard_result:
  "(getCardType c = Potion \<and> potionUsedThisTurn g \<longrightarrow>
      canResolveCard g c =
        \<lparr>canResolve = False, reason = Some ''Only one potion per room'', forceBareHanded = None\<rparr>
      \<and> resolve_card g c = (None, resolvePotion g c)
      \<and> health (snd (resolve_card g c)) = health g
      \<and> discard (snd (resolve_card g c)) = discard g @ [c])
   \<and> (getCardType c = Monster \<and> weapon g = Some w \<and> lastDefeated w = Some l \<and> cvalue c > l \<longrightarrow>
      canResolveCard g c =
        \<lparr>canResolve = True,
         reason = Some (''Monster too strong for weapon ('' @ String_num (cvalue c) @ '' > ''
                        @ String_num l @ '')''),
         forceBareHanded = Some True\<rparr>)
   \<and> (\<not> (getCardType c = Potion \<and> potionUsedThisTurn g)
       \<and> \<not> (getCardType c = Monster
             \<and> (\<exists>w l. weapon g = Some w \<and> lastDefeated w = Some l \<and> cvalue c > l)) \<longrightarrow>
      canResolveCard g c = \<lparr>canResolve = True, reason = None, forceBareHanded = None\<rparr>)
   \<and> (canResolve (canResolveCard g c) \<longleftrightarrow> \<not> (getCardType c = Potion \<and> potionUsedThisTurn g))"
  by (auto simp: canResolveCard_def Let_def resolve_card_def resolvePotion_health
           split: option.splits)

theorem canResolveCard_result_witness:
  "getCardType \<lparr>suit = Hearts, rank = ''9'', cvalue = 9\<rparr> = Potion
   \<and> potionUsedThisTurn (resolvePotion potion_example \<lparr>suit = Hearts, rank = ''5'', cvalue = 5\<rparr>)
   \<and> canResolveCard (resolvePotion potion_example \<lparr>suit = Hearts, rank = ''5'', cvalue = 5\<rparr>)
        \<lparr>suit = Hearts, rank = ''9'', cvalue = 9\<rparr> =
      \<lparr>canResolve = False, reason = Some ''Only one potion per room'', forceBareHanded = None\<rparr>
   \<and> getCardType \<lparr>suit = Spades, rank = ''10'', cvalue = 10\<rparr> = Monster
   \<and> weapon weapon_example = Some \<lparr>wvalue = 7, lastDefeated = Some 9,
        defeatedMonsters = [\<lparr>suit = Clubs, rank = ''9'', cvalue = 9\<rparr>]\<rparr>
   \<and> canResolveCard weapon_example \<lparr>suit = Spades, rank = ''10'', cvalue = 10\<rparr> =
      \<lparr>canResolve = True, reason = Some ''Monster too strong for weapon (10 > 9)'',
       forceBareHanded = Some True\<rparr>
   \<and> canResolveCard weapon_example \<lparr>suit = Spades, rank = ''8'', cvalue = 8\<rparr> =
      \<lparr>canResolve = True, reason = None, forceBareHanded = None\<rparr>"
proof -
  have s: "String_num 10 = ''10''" "String_num 9 = ''9''"
    by (simp_all add: String_num_def digits.simps digit_char_def)
  have h: "getCardType \<lparr>suit = Hearts, rank = ''9'', cvalue = 9\<rparr> = Potion"
    "getCardType \<lparr>suit = Spades, rank = ''10'', cvalue = 10\<rparr> = Monster"
    "getCardType \<lparr>suit = Spades, rank = ''8'', cvalue = 8\<rparr> = Monster"
    "weapon weapon_example = Some \<lparr>wvalue = 7, lastDefeated = Some 9,
        defeatedMonsters = [\<lparr>suit = Clubs, rank = ''9'', cvalue = 9\<rparr>]\<rparr>"
    "potionUsedThisTurn weapon_example = False"
    by (simp_all add: getCardType_def weapon_example_def)
  show ?thesis
    using s h
      canResolveCard_result [of "\<lparr>suit = Hearts, rank = ''9'', cvalue = 9\<rparr>"
        "resolvePotion potion_example \<lparr>suit = Hearts, rank = ''5'', cvalue = 5\<rparr>"]
      canResolveCard_result [of "\<lparr>suit = Spades, rank = ''10'', cvalue = 10\<rparr>" weapon_example
        "\<lparr>wvalue = 7, lastDefeated = Some 9,
          defeatedMonsters = [\<lparr>suit = Clubs, rank = ''9'', cvalue = 9\<rparr>]\<rparr>" 9]
      canResolveCard_result [of "\<lparr>suit = Spades, rank = ''8'', cvalue = 8\<rparr>" weapon_example]
    by simp
qed

section \<open>faceRoom\<close>

lemma three_of_four:
  fixes a b c k :: int
  assumes "distinct [a, b, c]" "set [a, b, c] \<subseteq> {0, 1, 2, 3}" "k \<in> {0, 1, 2, 3}"
    "k \<notin> set [a, b, c]"
  shows "set [a, b, c] = {0, 1, 2, 3} - {k}"
proof (rule card_subset_eq)
  show "finite ({0, 1, 2, 3} - {k})" by simp
  show "set [a, b, c] \<subseteq> {0, 1, 2, 3} - {k}" using assms by auto
  have "card (set [a, b, c]) = 3" using assms(1) distinct_card [of "[a, b, c]"] by simp
  moreover have "card ({0, 1, 2, 3} - {k} :: int set) = 3" using assms(3) by auto
  ultimately show "card (set [a, b, c]) = card ({0, 1, 2, 3} - {k})" by simp
qed

lemma find_unselected:
  fixes a b c k :: int
  assumes "distinct [a, b, c]" "set [a, b, c] \<subseteq> {0, 1, 2, 3}" "k \<in> {0, 1, 2, 3}"
    "k \<notin> set [a, b, c]"
  shows "find (\<lambda>i. i \<notin> set [a, b, c]) [0, 1, 2, 3] = Some k"
  using assms(3) unfolding find.simps three_of_four [OF assms] by auto

lemma resolve_next_fields [simp]:
  "room (snd (resolve_next o3 c)) = room (snd o3)"
  "selectedCards (snd (resolve_next o3 c)) = selectedCards (snd o3)"
  "deck (snd (resolve_next o3 c)) = deck (snd o3)"
  "roomCarriedCard (snd (resolve_next o3 c)) = roomCarriedCard (snd o3)"
  by (cases o3; cases "fst o3"; cases c; simp add: resolve_card_def split: card_type.splits)+

lemma resolve_loop_nil_next: "resolve_loop g [] = (None, g)"
  by simp

text \<open>The loop goes on from the rounds so far as \<open>resolve_next\<close> says.\<close>

lemma resolve_loop_step:
  assumes "\<not> gameOver g"
  shows "resolve_loop g (i # rest) =
    (case resolve_next (None, g) (card_at (room g) i) of
       (Some err, g') \<Rightarrow> (Some err, g')
     | (None, g') \<Rightarrow> if gameOver g' then (None, g') else resolve_loop g' rest)"
  using assms by (cases "card_at (room g) i") simp_all

lemma resolve_loop_three:
  assumes "\<not> gameOver g"
  shows "resolve_loop g [a, b, c] =
           resolve_next (resolve_next (resolve_next (None, g) (card_at (room g) a))
             (card_at (room g) b)) (card_at (room g) c)"
proof -
  obtain e1 g1 where o1: "resolve_next (None, g) (card_at (room g) a) = (e1, g1)"
    by (cases "resolve_next (None, g) (card_at (room g) a)")
  have r1: "room g1 = room g" using resolve_next_fields(1) [of "(None, g)" "card_at (room g) a"] o1 by simp
  show ?thesis
  proof (cases "e1 = None \<and> \<not> gameOver g1")
    case False
    then show ?thesis
      using resolve_loop_step [OF assms, of a "[b, c]"] o1
      by (cases e1; cases "card_at (room g) b"; cases "card_at (room g) c"; simp)
  next
    case True
    then have l1: "resolve_loop g [a, b, c] = resolve_loop g1 [b, c]"
      using resolve_loop_step [OF assms, of a "[b, c]"] o1 by simp
    obtain e2 g2 where o2: "resolve_next (None, g1) (card_at (room g) b) = (e2, g2)"
      by (cases "resolve_next (None, g1) (card_at (room g) b)")
    have r2: "room g2 = room g"
      using resolve_next_fields(1) [of "(None, g1)" "card_at (room g) b"] o2 r1 by simp
    show ?thesis
    proof (cases "e2 = None \<and> \<not> gameOver g2")
      case False
      then show ?thesis
        using l1 True resolve_loop_step [of g1 b "[c]"] o1 o2 r1
        by (cases e2; cases "card_at (room g) c"; simp)
    next
      case t2: True
      then have "resolve_loop g1 [b, c] = resolve_loop g2 [c]"
        using True resolve_loop_step [of g1 b "[c]"] o2 r1 by simp
      moreover have "resolve_loop g2 [c] = resolve_next (None, g2) (card_at (room g) c)"
        using t2 resolve_loop_step [of g2 c "[]"] r2
        by (cases "resolve_next (None, g2) (card_at (room g) c)") (auto split: option.splits)
      ultimately show ?thesis using l1 True t2 o1 o2 by simp
    qed
  qed
qed


lemma faceRoom_result:
  assumes "length (room g) = 4" and "selectedCards g = [a, b, c]" and "distinct [a, b, c]"
    and "set [a, b, c] \<subseteq> {0, 1, 2, 3}" and "k \<in> {0, 1, 2, 3}" and "k \<notin> set [a, b, c]"
    and "\<not> gameOver g"
  defines "o3 \<equiv> resolve_next (resolve_next (resolve_next (None, g) (card_at (room g) a))
                    (card_at (room g) b)) (card_at (room g) c)"
  defines "g4 \<equiv> leave_room (snd o3) (card_at (room g) k)"
  shows "faceRoom g =
           (case fst o3 of
              Some err \<Rightarrow> Inl (err, snd o3)
            | None \<Rightarrow> Inr (True, if gameOver (snd o3) then g4 else snd (drawRoom g4)))"
    and "roomCarriedCard g4 = card_at (room g) k"
    and "\<not> gameOver (snd o3) \<Longrightarrow>
           room (snd (drawRoom g4)) = map read_slot (take 4 (carried_list g4 @ deck g))"
proof -
  have loop: "resolve_loop g (selectedCards g) = o3"
    unfolding assms(2) o3_def using assms(7) by (rule resolve_loop_three)
  have sel: "selectedCards (snd o3) = [a, b, c]" and rm: "room (snd o3) = room g"
    and dk: "deck (snd o3) = deck g"
    by (simp_all add: o3_def assms(2))
  have f: "find (\<lambda>i. i \<notin> set (selectedCards (snd o3))) [0, 1, 2, 3] = Some k"
    unfolding sel using assms(3,4,5,6) by (rule find_unselected)
  show "faceRoom g =
           (case fst o3 of
              Some err \<Rightarrow> Inl (err, snd o3)
            | None \<Rightarrow> Inr (True, if gameOver (snd o3) then g4 else snd (drawRoom g4)))"
  proof (cases o3)
    case (Pair e3 g3)
    then show ?thesis
      using assms(2,7) loop f rm
      by (cases e3) (simp_all add: faceRoom_def Let_def g4_def leave_room_def)
  qed
  show "roomCarriedCard g4 = card_at (room g) k"
    by (simp add: g4_def leave_room_def)
  show "room (snd (drawRoom g4)) = map read_slot (take 4 (carried_list g4 @ deck g))"
    if "\<not> gameOver (snd o3)"
  proof -
    have "\<not> gameOver g4" using that by (simp add: g4_def leave_room_def)
    then have "room (snd (drawRoom g4)) = map read_slot (take 4 (carried_list g4 @ deck g4))"
      by (rule drawRoom_room)
    then show ?thesis by (simp add: g4_def leave_room_def carried_list_def dk)
  qed
qed

subsection \<open>Arrays that hold cards only\<close>

lemma monsters_of_defined:
  "Undefined \<notin> set xs \<Longrightarrow>
     monsters_of xs = Inr (filter (\<lambda>c. getCardType c = Monster) (cards_of xs))"
  by (induction xs rule: monsters_of.induct) auto

lemma remainingMonsters_defined:
  "Undefined \<notin> set (deck g) \<union> set (room g) \<Longrightarrow>
     remainingMonsters g =
       Inr (filter (\<lambda>c. getCardType c = Monster) (cards_of (deck g))
            @ filter (\<lambda>c. getCardType c = Monster) (cards_of (room g)))"
  by (simp add: remainingMonsters_def monsters_of_defined)

lemma endGame_defined:
  "Undefined \<notin> set (deck g) \<union> set (room g) \<Longrightarrow> fst (endGame g won) = None"
  by (simp add: endGame_def Let_def remainingMonsters_defined)

lemma resolveMonster_defined:
  "Undefined \<notin> set (deck g) \<union> set (room g) \<Longrightarrow> fst (resolveMonster g c) = None"
  by (simp add: resolveMonster_def take_damage_def Let_def endGame_defined split: option.splits)

lemma resolve_card_defined:
  "Undefined \<notin> set (deck g) \<union> set (room g) \<Longrightarrow> fst (resolve_card g c) = None"
  by (simp add: resolve_card_def resolveMonster_defined split: card_type.splits)

lemma resolve_next_defined:
  assumes "Undefined \<notin> set (deck (snd o3)) \<union> set (room (snd o3))" "fst o3 = None" "c \<noteq> None"
  shows "fst (resolve_next o3 c) = None"
  using assms by (cases o3; cases c) (auto simp: resolve_card_defined)

lemma intact_defined: "intact g \<Longrightarrow> Undefined \<notin> set (deck g) \<union> set (room g)"
  by (auto simp: intact_def)

lemma intact_card_at:
  assumes "intact g" "0 \<le> i" "i < int (length (room g))"
  shows "\<exists>c. room g ! nat i = Card c \<and> card_at (room g) i = Some c"
proof -
  have "room g ! nat i \<in> set (room g)" using assms(2,3) by simp
  then obtain c where "room g ! nat i = Card c" using assms(1) by (auto simp: intact_def)
  then show ?thesis using assms(2,3) by (simp add: card_at_def at_index_def)
qed

lemma read_slot_cards: "\<forall>s \<in> set xs. \<exists>c. s = Card c \<Longrightarrow> map read_slot xs = xs"
  by (induction xs) auto



section \<open>shuffle and reset\<close>

lemma length_createDeck: "length createDeck = 44"
  by (simp add: createDeck_def RANKS_def)


lemma cards_of_append [simp]: "cards_of (xs @ ys) = cards_of xs @ cards_of ys"
  by (induction xs rule: cards_of.induct) simp_all

lemma cards_of_replicate_Hole [simp]: "cards_of (replicate n Hole) = []"
  by (induction n) simp_all

lemma cards_of_map_Card [simp]: "cards_of (map Card cs) = cs"
  by (induction cs) simp_all

lemma set_cards_of: "set (cards_of xs) = {c. Card c \<in> set xs}"
  by (induction xs rule: cards_of.induct) auto

lemma cards_js_get: "set (cards_of [js_get xs i]) \<subseteq> set (cards_of xs)"
proof (cases "i < length xs")
  case True
  then have mem: "xs ! i \<in> set xs" by simp
  show ?thesis
  proof (cases "xs ! i")
    case (Card c)
    then show ?thesis using True mem by (simp add: js_get_def set_cards_of)
  qed (simp_all add: js_get_def True read_slot_def)
next
  case False
  then show ?thesis by (simp add: js_get_def)
qed

lemma cards_js_set: "set (cards_of (js_set xs i v)) \<subseteq> set (cards_of xs) \<union> set (cards_of [v])"
  by (auto simp: js_set_def set_cards_of dest: set_update_subset_insert [THEN subsetD])

text \<open>Whatever the swap indices are, the shuffle only moves cards: every card of the
  result is a card of the array it was given.\<close>

lemma shuffle_loop_cards:
  "set (cards_of (fst (shuffle_loop m e g i (xs, nan))))
     \<union> set (cards_of [snd (shuffle_loop m e g i (xs, nan))])
   \<subseteq> set (cards_of xs) \<union> set (cards_of [nan])"
proof (induction i arbitrary: g xs nan)
  case 0
  then show ?case by simp
next
  case (Suc i)
  obtain r g' where rg: "rng_call m e g = (r, g')" by (cases "rng_call m e g")
  show ?case
  proof (cases "floor_times m r (Suc i + 1)")
    case None
    have "set (cards_of (js_set xs (Suc i) nan)) \<union> set (cards_of [js_get xs (Suc i)])
        \<subseteq> set (cards_of xs) \<union> set (cards_of [nan])"
      using cards_js_set [of xs "Suc i" nan] cards_js_get [of xs "Suc i"] by blast
    then show ?thesis
      using Suc.IH [of g' "js_set xs (Suc i) nan" "js_get xs (Suc i)"] rg None
      by (simp del: cards_of.simps) blast
  next
    case (Some j)
    let ?ys = "js_set (js_set xs (Suc i) (js_get xs j)) j (js_get xs (Suc i))"
    have "set (cards_of ?ys) \<subseteq> set (cards_of xs)"
      using cards_js_set [of "js_set xs (Suc i) (js_get xs j)" j "js_get xs (Suc i)"]
        cards_js_set [of xs "Suc i" "js_get xs j"] cards_js_get [of xs j]
        cards_js_get [of xs "Suc i"] by blast
    then show ?thesis
      using Suc.IH [of g' ?ys nan] rg Some
      by (simp del: cards_of.simps) blast
  qed
qed


text \<open>A swap of two entries of the array.\<close>

lemma js_swap_in_range:
  assumes "i < length xs" "j < length xs" "Hole \<notin> set xs"
  shows "js_set (js_set xs i (js_get xs j)) j (js_get xs i) = xs[i := xs ! j, j := xs ! i]"
proof -
  have "xs ! i \<noteq> Hole" "xs ! j \<noteq> Hole" using assms by (metis nth_mem)+
  then have "read_slot (xs ! i) = xs ! i" "read_slot (xs ! j) = xs ! j"
    by (simp_all add: read_slot_def split: slot.splits)
  then show ?thesis using assms(1,2) by (simp add: js_set_def js_get_def)
qed

lemma shuffle_loop_in_range:
  assumes "picks_in_range m e g i (length xs)" "i < length xs" "Hole \<notin> set xs"
  shows "mset (fst (shuffle_loop m e g i (xs, nan))) = mset xs
       \<and> snd (shuffle_loop m e g i (xs, nan)) = nan"
  using assms
proof (induction i arbitrary: g xs)
  case 0
  then show ?case by simp
next
  case (Suc i)
  obtain r g' where rg: "rng_call m e g = (r, g')" by (cases "rng_call m e g")
  from Suc.prems(1) rg obtain j where j: "floor_times m r (Suc i + 1) = Some j" "j < length xs"
    and rest: "picks_in_range m e g' i (length xs)"
    by (auto split: option.splits)
  let ?ys = "xs[Suc i := xs ! j, j := xs ! Suc i]"
  have sw: "js_set (js_set xs (Suc i) (js_get xs j)) j (js_get xs (Suc i)) = ?ys"
    using Suc.prems(2) j(2) Suc.prems(3) by (rule js_swap_in_range)
  have m: "mset ?ys = mset xs" using Suc.prems(2) j(2) by (simp add: mset_swap)
  then have "set ?ys = set xs" by (rule mset_eq_setD)
  then have h: "Hole \<notin> set ?ys" using Suc.prems(3) by simp
  have "mset (fst (shuffle_loop m e g' i (?ys, nan))) = mset ?ys
       \<and> snd (shuffle_loop m e g' i (?ys, nan)) = nan"
    using rest Suc.prems(2) h by (intro Suc.IH) simp_all
  then show ?case using rg j(1) sw m by simp
qed




lemma reset_fields:
  "health (reset m e sd) = 20" "maxHealth (reset m e sd) = 20" "discard (reset m e sd) = []"
  "room (reset m e sd) = []" "weapon (reset m e sd) = None" "canAvoid (reset m e sd)"
  "roomCarriedCard (reset m e sd) = None" "\<not> potionUsedThisTurn (reset m e sd)"
  "selectedCards (reset m e sd) = []" "\<not> gameOver (reset m e sd)" "\<not> gameWon (reset m e sd)"
  "defeatingCard (reset m e sd) = None"
  by (simp_all add: reset_def Let_def)


lemma reset_deck_cards: "set (cards_of (deck (reset m e sd))) \<subseteq> set createDeck"
  using shuffle_loop_cards [of m e _ 43 "map Card createDeck" Undefined]
  by (simp add: reset_def Let_def shuffle_def length_createDeck)

lemma reset_deck_in_range:
  assumes "picks_in_range m e (Seeded (case sd of Some s \<Rightarrow> s | None \<Rightarrow> now e)) 43 44"
  shows "mset (deck (reset m e sd)) = mset (map Card createDeck)"
proof -
  have "Hole \<notin> set (map Card createDeck)" by auto
  then show ?thesis
    using shuffle_loop_in_range [of m e _ 43 "map Card createDeck" Undefined] assms
    by (simp add: reset_def Let_def shuffle_def length_createDeck)
qed

lemma shuffle_loop_no_swap:
  "i < length xs \<Longrightarrow> Hole \<notin> set xs \<Longrightarrow> shuffle_loop no_swap e g i (xs, nan) = (xs, nan)"
proof (induction i arbitrary: g)
  case 0
  then show ?case by simp
next
  case (Suc i)
  obtain r g' where rg: "rng_call no_swap e g = (r, g')" by (cases "rng_call no_swap e g")
  have f: "floor_times no_swap r (Suc i + 1) = Some (Suc i)" by (simp add: no_swap_def)
  have "js_set (js_set xs (Suc i) (js_get xs (Suc i))) (Suc i) (js_get xs (Suc i)) = xs"
    using js_swap_in_range [of "Suc i" xs "Suc i"] Suc.prems by simp
  then show ?case using Suc rg f by simp
qed

lemma reset_no_swap:
  "reset no_swap e (Some s) =
     \<lparr>seed = s, health = 20, maxHealth = 20, turn = 0, deck = map Card createDeck, discard = [],
      room = [], weapon = None, canAvoid = True, roomCarriedCard = None,
      potionUsedThisTurn = False, selectedCards = [], gameOver = False,
      gameWon = False, defeatingCard = None, eventLog = [(GameStarted, Info)]\<rparr>"
proof -
  have "Hole \<notin> set (map Card createDeck)" by auto
  then have "shuffle no_swap e (map Card createDeck) (Some s) = map Card createDeck"
    by (simp add: shuffle_def shuffle_loop_no_swap length_createDeck)
  then show ?thesis by (simp add: reset_def logEvent_def)
qed




section \<open>Invariants\<close>

subsection \<open>The cards of the deck\<close>

lemma createDeck_values: "\<forall>c \<in> set createDeck. 2 \<le> cvalue c \<and> cvalue c \<le> 14"
  by (simp add: createDeck_def RANKS_def)

lemma createDeck_weapons:
  "\<forall>c \<in> set createDeck. getCardType c = Weapon \<longrightarrow>
     c = \<lparr>suit = Diamonds, rank = String_num (cvalue c), cvalue = cvalue c\<rparr>"
  by (simp add: createDeck_def RANKS_def getCardType_def String_num_def digits.simps digit_char_def)

lemma getCardType_known: "getCardType c \<noteq> Unknown"
  by (cases "suit c") (simp_all add: getCardType_def)

lemma cards_of_read_slot [simp]: "cards_of (map read_slot xs) = cards_of xs"
  by (induction xs rule: cards_of.induct) (simp_all add: read_slot_def)

lemma cards_of_take_drop: "cards_of (take n xs) @ cards_of (drop n xs) = cards_of xs"
  using cards_of_append [of "take n xs" "drop n xs"] by simp

lemma card_at_cards: "card_at xs i = Some c \<Longrightarrow> c \<in> set (cards_of xs)"
proof -
  assume a: "card_at xs i = Some c"
  then have "0 \<le> i \<and> i < int (length xs) \<and> xs ! nat i = Card c"
    by (auto simp: card_at_def at_index_def split: if_splits slot.splits)
  then have "Card c \<in> set xs" by (metis nth_mem nat_less_iff)
  then show ?thesis by (simp add: set_cards_of)
qed

lemma card_at_bounds: "card_at xs i \<noteq> None \<Longrightarrow> 0 \<le> i \<and> i < int (length xs)"
  by (auto simp: card_at_def at_index_def split: if_splits)

subsection \<open>selectCard\<close>

lemma indexOf_ge: "- 1 \<le> indexOf xs x"
  by (induction xs) (auto simp: Let_def)

lemma indexOf_member: "0 \<le> indexOf xs x \<longleftrightarrow> x \<in> set xs"
  using indexOf_ge [of _ x] by (induction xs) (auto simp: Let_def)

lemma splice1_indexOf: "x \<in> set xs \<Longrightarrow> splice1 xs (indexOf xs x) = remove1 x xs"
proof (induction xs)
  case Nil
  then show ?case by simp
next
  case (Cons y ys)
  show ?case
  proof (cases "y = x")
    case True
    then show ?thesis by (simp add: splice1_def)
  next
    case False
    then have x: "x \<in> set ys" using Cons.prems by simp
    then have k: "0 \<le> indexOf ys x" by (simp add: indexOf_member)
    have "nat (indexOf ys x + 1) = Suc (nat (indexOf ys x))" using k by simp
    then show ?thesis using False k Cons.IH [OF x] by (simp add: splice1_def Let_def)
  qed
qed

lemma selectCard_selected:
  "selectedCards (snd (selectCard g i)) =
     (if gameOver g \<or> card_at (room g) i = None then selectedCards g
      else if i \<in> set (selectedCards g) then remove1 i (selectedCards g)
      else if length (selectedCards g) < 3 then selectedCards g @ [i]
      else selectedCards g)"
  by (auto simp: selectCard_def Let_def indexOf_member splice1_indexOf)

lemma selectCard_fields [simp]:
  "health (snd (selectCard g i)) = health g"
  "maxHealth (snd (selectCard g i)) = maxHealth g"
  "deck (snd (selectCard g i)) = deck g"
  "discard (snd (selectCard g i)) = discard g"
  "room (snd (selectCard g i)) = room g"
  "weapon (snd (selectCard g i)) = weapon g"
  "roomCarriedCard (snd (selectCard g i)) = roomCarriedCard g"
  "gameOver (snd (selectCard g i)) = gameOver g"
  "gameWon (snd (selectCard g i)) = gameWon g"
  by (simp_all add: selectCard_def Let_def)

lemma selection_ok_selectCard: "selection_ok g \<Longrightarrow> selection_ok (snd (selectCard g i))"
  unfolding selection_ok_def selectCard_selected
  by (auto simp: length_remove1 split: if_splits dest: notin_set_remove1)

subsection \<open>drawRoom and avoidRoom\<close>

lemma set_carried_list: "set (cards_of (carried_list g)) = set_option (roomCarriedCard g)"
  by (cases "roomCarriedCard g") (simp_all add: carried_list_def)

lemma health_ok_drawRoom: "health_ok g \<Longrightarrow> health_ok (snd (drawRoom g))"
proof (cases "gameOver g")
  case True
  assume "health_ok g"
  with True show ?thesis by simp
next
  case False
  assume "health_ok g"
  with False show ?thesis
    by (auto simp: health_ok_def drawRoom_fields drawRoom_gameOver drawRoom_gameWon)
qed

lemma cards_ok_drawRoom: "cards_ok g \<Longrightarrow> cards_ok (snd (drawRoom g))"
proof (cases "gameOver g")
  case True
  assume "cards_ok g"
  with True show ?thesis by simp
next
  case False
  assume ok: "cards_ok g"
  let ?xs = "carried_list g @ deck g"
  have all: "set (cards_of ?xs) \<subseteq> set createDeck"
    using ok by (simp add: cards_ok_def set_carried_list)
  have "set (cards_of (take 4 ?xs)) \<union> set (cards_of (drop 4 ?xs)) = set (cards_of ?xs)"
    using cards_of_take_drop [of 4 ?xs] by (metis set_append)
  then have "set (cards_of (take 4 ?xs)) \<subseteq> set createDeck"
    "set (cards_of (drop 4 ?xs)) \<subseteq> set createDeck"
    using all by blast+
  then show ?thesis
    using False by (simp add: cards_ok_def drawRoom_fields drawRoom_room drawRoom_deck)
qed

lemma selection_ok_drawRoom: "selection_ok g \<or> \<not> gameOver g \<Longrightarrow> selection_ok (snd (drawRoom g))"
  by (cases "gameOver g") (auto simp: selection_ok_def drawRoom_fields)

lemma room_ok_drawRoom: "room_ok (snd (drawRoom g))"
proof (cases "gameOver g")
  case True
  then show ?thesis by (simp add: room_ok_def)
next
  case False
  then show ?thesis
    by (auto simp: room_ok_def drawRoom_fields drawRoom_gameOver drawRoom_room)
qed

text \<open>The state in which a successful avoidRoom calls drawRoom.\<close>

lemma avoidRoom_accepted:
  assumes "canAvoid g" "\<not> gameOver g" "length (room g) = 4"
  shows "avoidRoom g =
    (True, snd (drawRoom (logEvent
       (g\<lparr>deck := deck g @ map read_slot (room g), room := [], canAvoid := False,
          roomCarriedCard := None\<rparr>)
       Avoided Warning)))"
  using assms by (simp add: avoidRoom_def Let_def)

lemma avoidRoom_cases:
  obtains "avoidRoom g = (False, g)"
  | "canAvoid g" "\<not> gameOver g" "length (room g) = 4"
      "avoidRoom g =
        (True, snd (drawRoom (logEvent
           (g\<lparr>deck := deck g @ map read_slot (room g), room := [], canAvoid := False,
              roomCarriedCard := None\<rparr>)
           Avoided Warning)))"
  using avoidRoom_accepted [of g] avoidRoom_refused [of g] by blast

lemma health_ok_avoidRoom: "health_ok g \<Longrightarrow> health_ok (snd (avoidRoom g))"
proof (cases g rule: avoidRoom_cases)
  case 1
  assume "health_ok g"
  with 1 show ?thesis by simp
next
  case 2
  assume "health_ok g"
  then have "health_ok (logEvent
       (g\<lparr>deck := deck g @ map read_slot (room g), room := [], canAvoid := False,
          roomCarriedCard := None\<rparr>)
       Avoided Warning)"
    by (simp add: health_ok_def)
  then show ?thesis unfolding 2(4) snd_conv by (rule health_ok_drawRoom)
qed

lemma cards_ok_avoidRoom: "cards_ok g \<Longrightarrow> cards_ok (snd (avoidRoom g))"
proof (cases g rule: avoidRoom_cases)
  case 1
  assume "cards_ok g"
  with 1 show ?thesis by simp
next
  case 2
  assume "cards_ok g"
  then have "cards_ok (logEvent
       (g\<lparr>deck := deck g @ map read_slot (room g), room := [], canAvoid := False,
          roomCarriedCard := None\<rparr>)
       Avoided Warning)"
    by (simp add: cards_ok_def)
  then show ?thesis unfolding 2(4) snd_conv by (rule cards_ok_drawRoom)
qed

lemma selection_ok_avoidRoom: "selection_ok g \<Longrightarrow> selection_ok (snd (avoidRoom g))"
proof (cases g rule: avoidRoom_cases)
  case 1
  assume "selection_ok g"
  with 1 show ?thesis by simp
next
  case 2
  show ?thesis unfolding 2(4) snd_conv by (rule selection_ok_drawRoom) (simp add: 2(2))
qed

lemma room_ok_avoidRoom: "room_ok g \<Longrightarrow> room_ok (snd (avoidRoom g))"
proof (cases g rule: avoidRoom_cases)
  case 1
  assume "room_ok g"
  with 1 show ?thesis by simp
next
  case 2
  show ?thesis unfolding 2(4) snd_conv by (rule room_ok_drawRoom)
qed

subsection \<open>Resolving a card\<close>

lemma resolveMonster_health_ok:
  "health_ok g \<Longrightarrow> \<not> gameOver g \<Longrightarrow> health_ok (snd (resolveMonster g c))"
  by (auto simp: health_ok_def resolveMonster_def take_damage_def Let_def split: option.splits)

lemma resolve_card_health_ok:
  assumes "health_ok g" "\<not> gameOver g" "0 \<le> cvalue c"
  shows "health_ok (snd (resolve_card g c))"
proof (cases "getCardType c")
  case Monster
  then show ?thesis using assms by (simp add: resolve_card_def resolveMonster_health_ok)
next
  case Weapon
  then show ?thesis using assms by (simp add: resolve_card_def health_ok_def)
next
  case Potion
  then show ?thesis using assms
    by (auto simp: resolve_card_def health_ok_def resolvePotion_health)
next
  case Unknown
  then show ?thesis using assms by (simp add: resolve_card_def)
qed

lemma resolve_next_health_ok:
  assumes "health_ok (snd o3)" "\<forall>c'. c = Some c' \<longrightarrow> 0 \<le> cvalue c'"
  shows "health_ok (snd (resolve_next o3 c))"
proof (cases o3)
  case (Pair e g)
  then show ?thesis
    using assms by (cases e; cases c) (simp_all add: resolve_card_health_ok)
qed

subsection \<open>faceRoom\<close>

lemma one_unselected:
  fixes a b c :: int
  obtains k where "k \<in> {0, 1, 2, 3}" "k \<notin> set [a, b, c]"
proof -
  have "card (set [a, b, c]) \<le> 3" using card_length [of "[a, b, c]"] by simp
  moreover have "card {0, 1, 2, 3 :: int} = 4" by simp
  ultimately have "\<not> {0, 1, 2, 3} \<subseteq> set [a, b, c]"
    using card_mono [of "set [a, b, c]" "{0, 1, 2, 3}"] by auto
  then show ?thesis using that by blast
qed

lemma faceRoom_cases:
  assumes "selection_ok g" "room_ok g"
  obtains (refused) "faceRoom g = Inr (False, g)"
  | (faced) a b c k where "length (room g) = 4" "selectedCards g = [a, b, c]"
      "distinct [a, b, c]" "set [a, b, c] \<subseteq> {0, 1, 2, 3}" "k \<in> {0, 1, 2, 3}"
      "k \<notin> set [a, b, c]" "\<not> gameOver g"
proof (cases "length (selectedCards g) \<noteq> 3 \<or> gameOver g")
  case True
  then show ?thesis using refused faceRoom_refused by blast
next
  case False
  then have live: "\<not> gameOver g" and l3: "length (selectedCards g) = 3" by auto
  then obtain a b c where sel: "selectedCards g = [a, b, c]"
    by (auto simp: length_Suc_conv numeral_3_eq_3)
  have d: "distinct [a, b, c]" and "\<forall>i \<in> set [a, b, c]. card_at (room g) i \<noteq> None"
    using assms(1) unfolding selection_ok_def sel by auto
  then have bound: "\<forall>i \<in> set [a, b, c]. 0 \<le> i \<and> i < int (length (room g))"
    using card_at_bounds by blast
  then have "room g \<noteq> []" by auto
  then have l4: "length (room g) = 4" using assms(2) live by (simp add: room_ok_def)
  have sub: "set [a, b, c] \<subseteq> {0, 1, 2, 3}" using bound unfolding l4 by auto
  obtain k :: int where "k \<in> {0, 1, 2, 3}" "k \<notin> set [a, b, c]" by (rule one_unselected)
  then show ?thesis using faced l4 sel d sub live by blast
qed

lemma leave_room_fields [simp]:
  "health (leave_room g c) = health g" "maxHealth (leave_room g c) = maxHealth g"
  "deck (leave_room g c) = deck g" "discard (leave_room g c) = discard g"
  "room (leave_room g c) = []" "weapon (leave_room g c) = weapon g"
  "roomCarriedCard (leave_room g c) = c" "selectedCards (leave_room g c) = []"
  "gameOver (leave_room g c) = gameOver g" "gameWon (leave_room g c) = gameWon g"
  by (simp_all add: leave_room_def)

text \<open>The invariants hold in the state \<open>faceRoom\<close> leaves, whether it returns or
  raises.\<close>

lemma faceRoom_invariants:
  assumes "health_ok g" "cards_ok g" "selection_ok g" "room_ok g"
    and "faceRoom g = Inr (r, g') \<or> faceRoom g = Inl (err, g')"
  shows "health_ok g' \<and> cards_ok g' \<and> selection_ok g' \<and> room_ok g'"
  using assms(3,4)
proof (cases g rule: faceRoom_cases)
  case refused
  then show ?thesis using assms by simp
next
  case (faced a b c k)
  define o3 where "o3 = resolve_next (resolve_next (resolve_next (None, g) (card_at (room g) a))
    (card_at (room g) b)) (card_at (room g) c)"
  define g4 where "g4 = leave_room (snd o3) (card_at (room g) k)"
  have res: "faceRoom g =
           (case fst o3 of
              Some err \<Rightarrow> Inl (err, snd o3)
            | None \<Rightarrow> Inr (True, if gameOver (snd o3) then g4 else snd (drawRoom g4)))"
    unfolding o3_def g4_def by (rule faceRoom_result(1) [OF faced])
  have mem: "c' \<in> set createDeck" if "card_at (room g) i = Some c'" for i c'
    using card_at_cards [OF that] assms(2) by (auto simp: cards_ok_def)
  have val: "\<forall>c'. card_at (room g) i = Some c' \<longrightarrow> 0 \<le> cvalue c'" for i
    using mem createDeck_values by fastforce
  have h3: "health_ok (snd o3)"
    unfolding o3_def using assms(1) by (intro resolve_next_health_ok val) simp
  have f3: "room (snd o3) = room g" "deck (snd o3) = deck g"
    "roomCarriedCard (snd o3) = roomCarriedCard g" "selectedCards (snd o3) = selectedCards g"
    by (simp_all add: o3_def)
  have c3: "cards_ok (snd o3)" using assms(2) by (simp add: cards_ok_def f3)
  have s3: "selection_ok (snd o3)" using assms(3) by (simp add: selection_ok_def f3)
  have "roomCarriedCard g = None" using assms(4) faced(7) by (simp add: room_ok_def)
  then have r3: "room_ok (snd o3)" using faced(1) by (simp add: room_ok_def f3)
  have h4: "health_ok g4" using h3 by (simp add: g4_def health_ok_def)
  have "set_option (card_at (room g) k) \<subseteq> set createDeck"
    using mem [of k] by (cases "card_at (room g) k") simp_all
  then have c4: "cards_ok g4" using c3 by (simp add: g4_def cards_ok_def)
  have s4: "selection_ok g4" by (simp add: g4_def selection_ok_def)
  show ?thesis
  proof (cases "fst o3")
    case (Some e)
    then have "g' = snd o3" using res assms(5) by simp
    then show ?thesis using h3 c3 s3 r3 by simp
  next
    case None
    then have g': "g' = (if gameOver (snd o3) then g4 else snd (drawRoom g4))"
      using res assms(5) by simp
    show ?thesis
    proof (cases "gameOver (snd o3)")
      case True
      then have "room_ok g4" by (simp add: g4_def room_ok_def)
      then show ?thesis using True g' h4 c4 s4 by simp
    next
      case False
      then show ?thesis
        using g' h4 c4 s4
        by (simp add: health_ok_drawRoom cards_ok_drawRoom selection_ok_drawRoom room_ok_drawRoom)
    qed
  qed
qed

subsection \<open>Every reachable state\<close>

lemma health_ok_selectCard: "health_ok g \<Longrightarrow> health_ok (snd (selectCard g i))"
  by (simp add: health_ok_def)

lemma cards_ok_selectCard: "cards_ok g \<Longrightarrow> cards_ok (snd (selectCard g i))"
  by (simp add: cards_ok_def)

lemma room_ok_selectCard: "room_ok g \<Longrightarrow> room_ok (snd (selectCard g i))"
  by (simp add: room_ok_def)

lemma apply_op_invariants:
  assumes "health_ok g \<and> cards_ok g \<and> selection_ok g \<and> room_ok g"
    and "apply_op g x = Inr g' \<or> apply_op g x = Inl (err, g')"
  shows "health_ok g' \<and> cards_ok g' \<and> selection_ok g' \<and> room_ok g'"
proof (cases x)
  case DrawRoom
  then show ?thesis using assms
    by (auto simp: health_ok_drawRoom cards_ok_drawRoom selection_ok_drawRoom room_ok_drawRoom)
next
  case AvoidRoom
  then show ?thesis using assms
    by (auto simp: health_ok_avoidRoom cards_ok_avoidRoom selection_ok_avoidRoom room_ok_avoidRoom)
next
  case (SelectCard i)
  then show ?thesis using assms
    by (auto simp: health_ok_selectCard cards_ok_selectCard selection_ok_selectCard
        room_ok_selectCard)
next
  case FaceRoom
  then have "(\<exists>r. faceRoom g = Inr (r, g')) \<or> faceRoom g = Inl (err, g')"
    using assms(2) by (auto split: sum.splits)
  then show ?thesis using assms(1) faceRoom_invariants by blast
qed

lemma reset_invariants:
  "health_ok (reset m e sd) \<and> cards_ok (reset m e sd) \<and> selection_ok (reset m e sd)
   \<and> room_ok (reset m e sd)"
  using reset_deck_cards [of m e sd]
  by (simp add: health_ok_def cards_ok_def selection_ok_def room_ok_def reset_fields)

lemma reachable_invariants:
  "reachable m g \<Longrightarrow> health_ok g \<and> cards_ok g \<and> selection_ok g \<and> room_ok g"
proof (induction rule: reachable.induct)
  case (after_reset e sd)
  then show ?case by (rule reset_invariants)
next
  case (after_op g x g')
  then show ?case using apply_op_invariants by blast
next
  case (after_raise g x err g')
  then show ?case using apply_op_invariants by blast
qed

section \<open>Conservation of the cards\<close>

lemma played_reachable: "played m g \<Longrightarrow> reachable m g"
  by (induction rule: played.induct) (auto intro: reachable.intros)

subsection \<open>Deck and room hold cards only\<close>

lemma intact_drawRoom: "intact g \<Longrightarrow> intact (snd (drawRoom g))"
proof (cases "gameOver g")
  case True
  assume "intact g"
  with True show ?thesis by simp
next
  case False
  assume i: "intact g"
  let ?xs = "carried_list g @ deck g"
  have all: "\<forall>s \<in> set ?xs. \<exists>c. s = Card c"
    using i by (cases "roomCarriedCard g") (auto simp: intact_def carried_list_def)
  then have t: "\<forall>s \<in> set (take 4 ?xs). \<exists>c. s = Card c" by (meson in_set_takeD)
  have d: "\<forall>s \<in> set (drop 4 ?xs). \<exists>c. s = Card c" using all by (meson in_set_dropD)
  show ?thesis
    unfolding intact_def drawRoom_room [OF False] drawRoom_deck [OF False]
      read_slot_cards [OF t]
    using t d by blast
qed

lemma intact_avoidRoom: "intact g \<Longrightarrow> intact (snd (avoidRoom g))"
proof (cases g rule: avoidRoom_cases)
  case 1
  assume "intact g"
  with 1 show ?thesis by simp
next
  case 2
  assume i: "intact g"
  then have "map read_slot (room g) = room g"
    by (intro read_slot_cards) (simp add: intact_def)
  then have "intact (logEvent
       (g\<lparr>deck := deck g @ map read_slot (room g), room := [], canAvoid := False,
          roomCarriedCard := None\<rparr>)
       Avoided Warning)"
    using i by (auto simp: intact_def)
  then show ?thesis unfolding 2(4) snd_conv by (rule intact_drawRoom)
qed

lemma intact_selectCard: "intact g \<Longrightarrow> intact (snd (selectCard g i))"
  by (simp add: intact_def)

lemma cards_only: "\<forall>s \<in> set xs. \<exists>c. s = Card c \<Longrightarrow> xs = map Card (cards_of xs)"
  by (induction xs) auto

lemma intact_room: "intact g \<Longrightarrow> room g = map Card (cards_of (room g))"
  by (rule cards_only) (simp add: intact_def)

lemma card_at_map_Card: "card_at (map Card cs) i = at_index cs i"
proof (cases "0 \<le> i \<and> i < int (length cs)")
  case True
  then have "nat i < length cs" by (simp add: nat_less_iff)
  then have "map Card cs ! nat i = Card (cs ! nat i)" by (rule nth_map)
  then show ?thesis using True by (simp add: card_at_def at_index_def)
next
  case False
  then show ?thesis by (auto simp: card_at_def at_index_def)
qed

text \<open>While deck and room hold cards only, \<open>faceRoom\<close> returns, and they still do
  afterwards.\<close>

lemma faceRoom_intact:
  assumes "selection_ok g" "room_ok g" "intact g"
  shows "\<exists>r g'. faceRoom g = Inr (r, g') \<and> intact g'"
  using assms(1,2)
proof (cases g rule: faceRoom_cases)
  case refused
  then show ?thesis using assms(3) by blast
next
  case (faced a b c k)
  define o1 where "o1 = resolve_next (None, g) (card_at (room g) a)"
  define o2 where "o2 = resolve_next o1 (card_at (room g) b)"
  define o3 where "o3 = resolve_next o2 (card_at (room g) c)"
  define g4 where "g4 = leave_room (snd o3) (card_at (room g) k)"
  have res: "faceRoom g =
           (case fst o3 of
              Some err \<Rightarrow> Inl (err, snd o3)
            | None \<Rightarrow> Inr (True, if gameOver (snd o3) then g4 else snd (drawRoom g4)))"
    unfolding o3_def o2_def o1_def g4_def by (rule faceRoom_result(1) [OF faced])
  have d: "Undefined \<notin> set (deck g) \<union> set (room g)" using assms(3) by (rule intact_defined)
  have at: "card_at (room g) j \<noteq> None" if "j \<in> {0, 1, 2, 3}" for j
    using intact_card_at [OF assms(3), of j] that faced(1) by auto
  have f1: "fst o1 = None"
    unfolding o1_def using d at [of a] faced(4) by (intro resolve_next_defined) simp_all
  have f2: "fst o2 = None"
    unfolding o2_def using d at [of b] faced(4) f1
    by (intro resolve_next_defined) (simp_all add: o1_def)
  have f3: "fst o3 = None"
    unfolding o3_def using d at [of c] faced(4) f2
    by (intro resolve_next_defined) (simp_all add: o2_def o1_def)
  have "deck (snd o3) = deck g" by (simp add: o3_def o2_def o1_def)
  then have "intact g4" using assms(3) by (simp add: intact_def g4_def)
  then have "intact (if gameOver (snd o3) then g4 else snd (drawRoom g4))"
    by (simp add: intact_drawRoom)
  then show ?thesis using res f3 by auto
qed

lemma played_intact: "played m g \<Longrightarrow> intact g"
proof (induction rule: played.induct)
  case (played_reset e sd)
  then have "set (deck (reset m e sd)) = set (map Card createDeck)" by (rule mset_eq_setD)
  then show ?case by (auto simp: intact_def reset_fields)
next
  case (played_op g x g')
  have inv: "selection_ok g" "room_ok g"
    using reachable_invariants [OF played_reachable [OF played_op(1)]] by auto
  show ?case
  proof (cases x)
    case DrawRoom
    then show ?thesis using played_op by (auto simp: intact_drawRoom)
  next
    case AvoidRoom
    then show ?thesis using played_op by (auto simp: intact_avoidRoom)
  next
    case (SelectCard i)
    then show ?thesis using played_op by (auto simp: intact_selectCard)
  next
    case FaceRoom
    then show ?thesis
      using faceRoom_intact [OF inv played_op(4)] played_op(3) by auto
  qed
qed

lemma faceRoom_never_raises:
  assumes "played m g"
  shows "\<exists>r g'. faceRoom g = Inr (r, g')"
  using faceRoom_intact [OF _ _ played_intact [OF assms]]
    reachable_invariants [OF played_reachable [OF assms]] by blast

subsection \<open>What each operation does to the cards\<close>

lemma all_cards_logEvent [simp]: "all_cards (logEvent g msg ty) = all_cards g"
  by (simp add: all_cards_def listed_cards_def held_cards_def stacked_cards_def carried_cards_def)

lemma all_cards_endGame [simp]: "all_cards (snd (endGame g won)) = all_cards g"
  by (simp add: all_cards_def listed_cards_def held_cards_def stacked_cards_def carried_cards_def)

lemma mset_carried_list: "mset (cards_of (carried_list g)) = carried_cards g"
  by (cases "roomCarriedCard g") (simp_all add: carried_list_def carried_cards_def)

lemma all_cards_drawRoom:
  assumes "room g = []"
  shows "all_cards (snd (drawRoom g)) = all_cards g"
proof (cases "gameOver g")
  case True
  then show ?thesis by simp
next
  case False
  have "mset (cards_of (room (snd (drawRoom g)))) + mset (cards_of (deck (snd (drawRoom g)))) =
          mset (cards_of (carried_list g @ deck g))"
    unfolding drawRoom_room [OF False] drawRoom_deck [OF False] cards_of_read_slot
    by (simp only: mset_append [symmetric] cards_of_take_drop)
  then have "mset (cards_of (room (snd (drawRoom g)))) + mset (cards_of (deck (snd (drawRoom g)))) =
          carried_cards g + mset (cards_of (deck g))"
    by (simp add: mset_carried_list)
  then show ?thesis
    using assms False
    by (simp add: all_cards_def listed_cards_def held_cards_def stacked_cards_def
        carried_cards_def [of "snd (drawRoom g)"] drawRoom_fields ac_simps)
qed

lemma all_cards_take_damage [simp]: "all_cards (snd (take_damage g c d)) = all_cards g"
proof -
  have "all_cards (g\<lparr>health := h, defeatingCard := dc\<rparr>) = all_cards g" for h dc
    by (simp add: all_cards_def listed_cards_def held_cards_def stacked_cards_def
        carried_cards_def)
  moreover have "all_cards (g\<lparr>health := h\<rparr>) = all_cards g" for h
    by (simp add: all_cards_def listed_cards_def held_cards_def stacked_cards_def
        carried_cards_def)
  ultimately show ?thesis by (simp add: take_damage_def Let_def)
qed

lemma all_cards_resolveMonster: "all_cards (snd (resolveMonster g c)) = all_cards g + {#c#}"
proof -
  have "all_cards (g\<lparr>discard := discard g @ [c]\<rparr>) = all_cards g + {#c#}"
    by (simp add: all_cards_def listed_cards_def held_cards_def stacked_cards_def
        carried_cards_def)
  moreover have "all_cards (g\<lparr>weapon := Some (w\<lparr>defeatedMonsters := defeatedMonsters w @ [c],
                     lastDefeated := Some (cvalue c)\<rparr>)\<rparr>) = all_cards g + {#c#}"
    if "weapon g = Some w" for w
    using that
    by (simp add: all_cards_def listed_cards_def held_cards_def stacked_cards_def
        carried_cards_def weapon_token_def)
  ultimately show ?thesis
    by (simp add: resolveMonster_def Let_def split: option.splits)
qed

lemma all_cards_resolvePotion: "all_cards (resolvePotion g c) = all_cards g + {#c#}"
  by (simp add: all_cards_def listed_cards_def held_cards_def stacked_cards_def carried_cards_def)

lemma all_cards_resolveWeapon:
  assumes "c = \<lparr>suit = Diamonds, rank = String_num (cvalue c), cvalue = cvalue c\<rparr>"
  shows "all_cards (resolveWeapon g c) = all_cards g + {#c#}"
proof -
  have t: "weapon_token \<lparr>wvalue = cvalue c, lastDefeated = None, defeatedMonsters = []\<rparr> = c"
    using assms by (simp add: weapon_token_def)
  show ?thesis
    by (cases "weapon g")
      (simp_all add: resolveWeapon_def Let_def all_cards_def listed_cards_def held_cards_def
        stacked_cards_def carried_cards_def t, simp add: weapon_token_def)
qed

lemma all_cards_resolve_card:
  assumes "c \<in> set createDeck"
  shows "all_cards (snd (resolve_card g c)) = all_cards g + {#c#}"
proof (cases "getCardType c")
  case Monster
  then show ?thesis by (simp add: resolve_card_def all_cards_resolveMonster)
next
  case Weapon
  then have "c = \<lparr>suit = Diamonds, rank = String_num (cvalue c), cvalue = cvalue c\<rparr>"
    using assms createDeck_weapons by blast
  then show ?thesis using Weapon by (simp add: resolve_card_def all_cards_resolveWeapon)
next
  case Potion
  then show ?thesis by (simp add: resolve_card_def all_cards_resolvePotion)
next
  case Unknown
  then show ?thesis by (simp add: getCardType_known)
qed

lemma room_four:
  fixes a b c k :: int
  assumes "length rm = 4" "distinct [a, b, c]" "set [a, b, c] \<subseteq> {0, 1, 2, 3}"
    "k \<in> {0, 1, 2, 3}" "k \<notin> set [a, b, c]"
  shows "mset rm = {#rm ! nat a, rm ! nat b, rm ! nat c, rm ! nat k#}"
proof -
  let ?f = "\<lambda>i. rm ! nat i"
  have "distinct [a, b, c, k]" using assms(2,5) by auto
  moreover have "set [a, b, c, k] = set [0, 1, 2, 3]"
    using three_of_four [OF assms(2-5)] assms(4) by auto
  ultimately have "mset [a, b, c, k] = mset [0, 1, 2, 3 :: int]"
    by (subst set_eq_iff_mset_eq_distinct [symmetric]) auto
  then have m: "mset (map ?f [0, 1, 2, 3]) = mset (map ?f [a, b, c, k])"
    by (simp only: mset_map)
  obtain r0 r1 r2 r3 where "rm = [r0, r1, r2, r3]"
    using assms(1) by (auto simp: length_Suc_conv numeral_eq_Suc)
  then have "rm = map ?f [0, 1, 2, 3]" by (simp add: numeral_eq_Suc)
  then have "mset rm = mset (map ?f [0, 1, 2, 3])" by (rule arg_cong)
  also have "\<dots> = mset (map ?f [a, b, c, k])" by (rule m)
  finally show ?thesis by simp
qed

lemma resolve_next_live:
  assumes "\<not> gameOver (snd (resolve_next o3 (Some c)))" "fst o3 = None"
  shows "\<not> gameOver (snd o3) \<and> resolve_next o3 (Some c) = resolve_card (snd o3) c"
  using assms by (cases o3) (auto split: if_splits)

lemma all_cards_leave_room:
  "all_cards (leave_room g (Some c)) + mset (cards_of (room g)) + carried_cards g =
     all_cards g + {#c#}"
  by (simp add: all_cards_def listed_cards_def held_cards_def stacked_cards_def
      carried_cards_def [of "leave_room g (Some c)"])

lemma resolve_card_carried_cards [simp]:
  "carried_cards (snd (resolve_card g c)) = carried_cards g"
  by (simp add: carried_cards_def)

lemma conserved_faceRoom:
  assumes "cards_ok g" "selection_ok g" "room_ok g" "intact g" "conserved g"
    and "faceRoom g = Inr (r, g')"
  shows "conserved g'"
  using assms(2,3)
proof (cases g rule: faceRoom_cases)
  case refused
  then show ?thesis using assms by simp
next
  case (faced a b c k)
  define cs where "cs = cards_of (room g)"
  have rm: "room g = map Card cs" unfolding cs_def using assms(4) by (rule intact_room)
  then have l4: "length cs = 4" using faced(1) by (metis length_map)
  have at: "card_at (room g) i = Some (cs ! nat i)" if "i \<in> {0, 1, 2, 3}" for i :: int
    using that l4 unfolding rm card_at_map_Card by (auto simp: at_index_def)
  have abc: "a \<in> {0, 1, 2, 3}" "b \<in> {0, 1, 2, 3}" "c \<in> {0, 1, 2, 3}" using faced(4) by auto
  have mem: "cs ! nat i \<in> set createDeck" if "i \<in> {0, 1, 2, 3}" for i :: int
  proof -
    have "nat i < length cs" using that l4 by auto
    then have "cs ! nat i \<in> set cs" by simp
    then show ?thesis using assms(1) by (auto simp: cards_ok_def cs_def)
  qed
  define o1 where "o1 = resolve_next (None, g) (Some (cs ! nat a))"
  define o2 where "o2 = resolve_next o1 (Some (cs ! nat b))"
  define o3 where "o3 = resolve_next o2 (Some (cs ! nat c))"
  define g4 where "g4 = leave_room (snd o3) (Some (cs ! nat k))"
  have ats: "card_at (room g) a = Some (cs ! nat a)" "card_at (room g) b = Some (cs ! nat b)"
    "card_at (room g) c = Some (cs ! nat c)" "card_at (room g) k = Some (cs ! nat k)"
    using at abc faced(5) by blast+
  have res: "faceRoom g =
           (case fst o3 of
              Some err \<Rightarrow> Inl (err, snd o3)
            | None \<Rightarrow> Inr (True, if gameOver (snd o3) then g4 else snd (drawRoom g4)))"
    using faceRoom_result(1) [OF faced] unfolding ats o3_def o2_def o1_def g4_def .
  have d: "Undefined \<notin> set (deck g) \<union> set (room g)" using assms(4) by (rule intact_defined)
  have f1: "fst o1 = None"
    unfolding o1_def using d by (intro resolve_next_defined) simp_all
  have f2: "fst o2 = None"
    unfolding o2_def using d f1 by (intro resolve_next_defined) (simp_all add: o1_def)
  have f3: "fst o3 = None"
    unfolding o3_def using d f2 by (intro resolve_next_defined) (simp_all add: o2_def o1_def)
  have g': "g' = (if gameOver (snd o3) then g4 else snd (drawRoom g4))"
    using res f3 assms(6) by simp
  show ?thesis
  proof (cases "gameOver (snd o3)")
    case True
    then show ?thesis using g' by (simp add: conserved_def g4_def)
  next
    case False
    have e3: "\<not> gameOver (snd o2)" "o3 = resolve_card (snd o2) (cs ! nat c)"
      using False f2 resolve_next_live unfolding o3_def by blast+
    have e2: "\<not> gameOver (snd o1)" "o2 = resolve_card (snd o1) (cs ! nat b)"
      using e3(1) f1 resolve_next_live unfolding o2_def by blast+
    have e1: "o1 = resolve_card g (cs ! nat a)"
      using e2(1) resolve_next_live [of "(None, g)" "cs ! nat a"] unfolding o1_def by simp
    have "all_cards (snd o3) = all_cards g + {#cs ! nat a, cs ! nat b, cs ! nat c#}"
      using abc by (simp add: e3(2) e2(2) e1 all_cards_resolve_card mem)
    moreover have "room (snd o3) = room g" "carried_cards (snd o3) = carried_cards g"
      by (simp_all add: e3(2) e2(2) e1)
    moreover have "carried_cards g = {#}"
      using assms(3) faced(7) by (simp add: room_ok_def carried_cards_def)
    ultimately have "all_cards g4 + mset cs =
        all_cards g + {#cs ! nat a, cs ! nat b, cs ! nat c, cs ! nat k#}"
      using all_cards_leave_room [of "snd o3" "cs ! nat k"] by (simp add: g4_def cs_def)
    then have "all_cards g4 = all_cards g"
      using room_four [OF l4 faced(3,4,5,6)] by simp
    moreover have "room g4 = []" by (simp add: g4_def)
    ultimately have "all_cards g' = all_cards g"
      using g' False by (simp add: all_cards_drawRoom)
    then show ?thesis using assms(5) faced(7) by (simp add: conserved_def)
  qed
qed

lemma conserved_avoidRoom:
  assumes "room_ok g" "conserved g"
  shows "conserved (snd (avoidRoom g))"
proof (cases g rule: avoidRoom_cases)
  case 1
  then show ?thesis using assms by simp
next
  case 2
  let ?g1 = "logEvent
       (g\<lparr>deck := deck g @ map read_slot (room g), room := [], canAvoid := False,
          roomCarriedCard := None\<rparr>)
       Avoided Warning"
  have "roomCarriedCard g = None" using assms(1) 2(2) by (simp add: room_ok_def)
  then have "all_cards ?g1 = all_cards g"
    by (simp add: all_cards_def listed_cards_def held_cards_def stacked_cards_def
        carried_cards_def)
  moreover have "room ?g1 = []" by simp
  ultimately have "all_cards (snd (avoidRoom g)) = all_cards g"
    unfolding 2(4) snd_conv by (simp add: all_cards_drawRoom)
  then show ?thesis using assms(2) 2(2) by (simp add: conserved_def)
qed

lemma conserved_selectCard: "conserved g \<Longrightarrow> conserved (snd (selectCard g i))"
  by (simp add: conserved_def all_cards_def listed_cards_def held_cards_def stacked_cards_def
      carried_cards_def)

lemma conserved_drawRoom:
  assumes "room g = []" "conserved g"
  shows "conserved (snd (drawRoom g))"
proof (cases "gameOver g")
  case True
  then show ?thesis using assms by simp
next
  case False
  then show ?thesis using assms by (simp add: conserved_def all_cards_drawRoom)
qed

lemma played_conserved: "played m g \<Longrightarrow> conserved g"
proof (induction rule: played.induct)
  case (played_reset e sd)
  have "mset (cards_of (deck (reset m e sd))) = mset createDeck"
  proof -
    have "set (deck (reset m e sd)) = set (map Card createDeck)"
      using played_reset by (rule mset_eq_setD)
    then have "\<forall>s \<in> set (deck (reset m e sd)). \<exists>c. s = Card c" by auto
    then have "deck (reset m e sd) = map Card (cards_of (deck (reset m e sd)))"
      by (rule cards_only)
    then have "image_mset Card (mset (cards_of (deck (reset m e sd)))) =
                 image_mset Card (mset createDeck)"
      using played_reset by (metis mset_map)
    moreover have "inj (image_mset Card)" by (rule multiset.inj_map) (simp add: inj_def)
    ultimately show ?thesis by (rule injD [rotated])
  qed
  then show ?case
    by (simp add: conserved_def all_cards_def listed_cards_def held_cards_def stacked_cards_def
        carried_cards_def reset_fields)
next
  case (played_op g x g')
  have inv: "cards_ok g" "selection_ok g" "room_ok g"
    using reachable_invariants [OF played_reachable [OF played_op(1)]] by auto
  have i: "intact g" using played_op(1) by (rule played_intact)
  show ?case
  proof (cases x)
    case DrawRoom
    then show ?thesis using played_op by (auto simp: conserved_drawRoom)
  next
    case AvoidRoom
    then show ?thesis using played_op inv by (auto simp: conserved_avoidRoom)
  next
    case (SelectCard i)
    then show ?thesis using played_op by (auto simp: conserved_selectCard)
  next
    case FaceRoom
    then obtain r where "faceRoom g = Inr (r, g')"
      using played_op(3) by (auto split: sum.splits)
    then show ?thesis using conserved_faceRoom inv i played_op(4) by blast
  qed
qed

section \<open>Runs\<close>

lemma reset_fresh: "reset no_swap env0 (Some 1) = fresh_game"
  by (simp add: reset_no_swap fresh_game_def)

lemma run_before_loss: "run fresh_game losing_ops = Inr before_loss"
  by code_simp

lemma face_before_loss: "faceRoom before_loss = Inr (True, lost_game)"
  by code_simp

lemma run_dropped: "run fresh_game [DrawRoom, DrawRoom] = Inr dropped_game"
  by code_simp

lemma run_armed:
  "run (snd (drawRoom (fresh_game\<lparr>deck := map Card weapon_first_deck\<rparr>)))
     [SelectCard 0, SelectCard 1, SelectCard 2, FaceRoom] = Inr armed_game"
  by code_simp

lemma run_reachable: "reachable m g \<Longrightarrow> run g ops = Inr g' \<Longrightarrow> reachable m g'"
proof (induction ops arbitrary: g)
  case Nil
  then show ?case by simp
next
  case (Cons x ops)
  then obtain g1 where g1: "apply_op g x = Inr g1" and r: "run g1 ops = Inr g'"
    by (auto split: sum.splits)
  have "reachable m g1" using Cons.prems(1) g1 by (rule after_op)
  then show ?case using r by (rule Cons.IH)
qed

lemma run_played:
  "played m g \<Longrightarrow> DrawRoom \<notin> set ops \<Longrightarrow> run g ops = Inr g' \<Longrightarrow> played m g'"
proof (induction ops arbitrary: g)
  case Nil
  then show ?case by simp
next
  case (Cons x ops)
  then obtain g1 where g1: "apply_op g x = Inr g1" and r: "run g1 ops = Inr g'"
    by (auto split: sum.splits)
  have "x \<noteq> DrawRoom" and nd: "DrawRoom \<notin> set ops" using Cons.prems(2) by auto
  then have "played m g1" using Cons.prems(1) g1 played_op by blast
  then show ?case using nd r by (rule Cons.IH)
qed

lemma reachable_fresh: "reachable no_swap fresh_game"
  using after_reset [of no_swap env0 "Some 1"] unfolding reset_fresh .

lemma reachable_before_loss: "reachable no_swap before_loss"
  using reachable_fresh run_before_loss by (rule run_reachable)

lemma reachable_lost_game: "reachable no_swap lost_game"
  using reachable_before_loss by (rule after_op [where x = FaceRoom]) (simp add: face_before_loss)

lemma reset_weapon_first:
  "reset weapon_first env0 (Some 1) = fresh_game\<lparr>deck := map Card weapon_first_deck\<rparr>"
  by code_simp

lemma mset_weapon_first_deck: "mset weapon_first_deck = mset createDeck"
  unfolding weapon_first_deck_def by (rule mset_swap) (simp_all add: length_createDeck)

lemma played_armed_game: "played weapon_first armed_game"
proof -
  have "mset (deck (reset weapon_first env0 (Some 1))) = mset (map Card createDeck)"
    unfolding reset_weapon_first by (simp add: mset_weapon_first_deck)
  then have "played weapon_first (reset weapon_first env0 (Some 1))" by (rule played_reset)
  then have "played weapon_first (fresh_game\<lparr>deck := map Card weapon_first_deck\<rparr>)"
    unfolding reset_weapon_first .
  then have "played weapon_first
      (snd (drawRoom (fresh_game\<lparr>deck := map Card weapon_first_deck\<rparr>)))"
    by (rule played_op [where x = DrawRoom]) (simp_all add: fresh_game_def)
  then show ?thesis by (rule run_played [OF _ _ run_armed]) simp
qed

lemma size_createDeck: "size (mset createDeck) = 44"
  by (simp add: length_createDeck)

section \<open>Health at rest\<close>

text \<open>Claim C9 as stated, that health is at least 0 whenever an operation has returned,
  fails: after \<open>faceRoom\<close> in \<open>before_loss\<close> the game is lost and health stays at -7.\<close>

theorem health_at_rest_counterexample:
  "reachable no_swap lost_game \<and> \<not> 0 \<le> health lost_game"
  using reachable_lost_game by (simp add: lost_game_def)

text \<open>Claim C9, amended. In every state in which a public operation has returned,
  \<open>maxHealth\<close> is 20 and health is at most \<open>maxHealth\<close>; health is 0 or less only in a
  game that is over and lost, where it keeps the value the last fight left, without
  being clamped. So health is at least 1 while the game goes on and after a win. The
  same holds in the state an operation leaves when it raises.\<close>

theorem health_at_rest:
  "reachable m g \<Longrightarrow>
     maxHealth g = 20 \<and> health g \<le> maxHealth g \<and> (health g \<le> 0 \<longrightarrow> gameOver g \<and> \<not> gameWon g)"
  using reachable_invariants [of m g] by (simp add: health_ok_def)

text \<open>The lost game has health -7 with \<open>gameOver\<close> set and \<open>gameWon\<close> clear; the state
  before it has health 8.\<close>

theorem health_at_rest_witness:
  "reachable no_swap lost_game \<and> maxHealth lost_game = 20 \<and> health lost_game \<le> 0
   \<and> gameOver lost_game \<and> \<not> gameWon lost_game
   \<and> reachable no_swap before_loss \<and> health before_loss = 8 \<and> health before_loss \<le> 20"
  using health_at_rest [OF reachable_lost_game] health_at_rest [OF reachable_before_loss]
    reachable_lost_game reachable_before_loss
  by (simp add: lost_game_def before_loss_def)

section \<open>The score of a lost game\<close>

text \<open>Claim C3 on the run that ends in \<open>lost_game\<close>. The monster that brings health to
  -7, the eight of clubs, is recorded as \<open>defeatingCard\<close> and the game is lost. The
  score that \<open>endGame\<close> computes and logs is -196: it counts 23 monsters, those of the
  deck and all four cards of the room, among them the seven and the eight of clubs, which
  were fought and are on the discard pile. \<open>getScore\<close> afterwards returns -173: the room
  has been cleared, so only the monsters of the deck count. The monsters of deck and room
  at the defeat that are not on the discard pile sum to 181.\<close>

theorem loss_score_divergence:
  "reset no_swap env0 (Some 1) = fresh_game
   \<and> run fresh_game losing_ops = Inr before_loss
   \<and> faceRoom before_loss = Inr (True, lost_game)
   \<and> gameOver lost_game \<and> \<not> gameWon lost_game
   \<and> defeatingCard lost_game = Some \<lparr>suit = Clubs, rank = ''8'', cvalue = 8\<rparr>
   \<and> last (eventLog lost_game) = (Defeated (- 7) (- 196) 23, Danger)
   \<and> getScore lost_game = Inr (- 173)
   \<and> (case remainingMonsters before_loss of
         Inl err \<Rightarrow> Inl err
       | Inr ms \<Rightarrow>
           Inr (- foldl (\<lambda>sum c. sum + cvalue c) 0
                    (filter (\<lambda>c. c \<notin> set (discard lost_game)) ms))) = Inr (- 181)"
proof -
  have "getScore lost_game = Inr (- 173)" by code_simp
  moreover have "(case remainingMonsters before_loss of
         Inl err \<Rightarrow> Inl err
       | Inr ms \<Rightarrow>
           Inr (- foldl (\<lambda>sum c. sum + cvalue c) 0
                    (filter (\<lambda>c. c \<notin> set (discard lost_game)) ms))) = Inr (- 181)"
    by code_simp
  ultimately show ?thesis
    using reset_fresh run_before_loss face_before_loss by (simp add: lost_game_def)
qed

text \<open>In \<open>before_loss\<close> three cards are selected and the game is not over, so
  \<open>faceRoom\<close> is not refused; the game it leaves is over and not won, and the two
  scores differ.\<close>

theorem loss_score_divergence_witness:
  "length (selectedCards before_loss) = 3 \<and> \<not> gameOver before_loss
   \<and> faceRoom before_loss = Inr (True, lost_game)
   \<and> gameOver lost_game \<and> \<not> gameWon lost_game
   \<and> getScore lost_game = Inr (- 173)
   \<and> fst (last (eventLog lost_game)) = Defeated (- 7) (- 196) 23"
  using loss_score_divergence by (simp add: before_loss_def)

section \<open>The conservation property\<close>

text \<open>Claim C2 as stated fails in two ways. In \<open>armed_game\<close> the listed collections hold
  43 cards: the equipped weapon is in none of them. In \<open>dropped_game\<close> they hold 40
  cards: \<open>drawRoom\<close> called on a full room replaces the room without putting its cards
  anywhere.\<close>

theorem cards_conserved_counterexample:
  "reachable weapon_first armed_game \<and> \<not> gameOver armed_game
   \<and> listed_cards armed_game \<noteq> mset createDeck
   \<and> reachable no_swap dropped_game \<and> \<not> gameOver dropped_game
   \<and> listed_cards dropped_game \<noteq> mset createDeck"
proof -
  have "size (listed_cards armed_game) = 43"
    by (simp add: listed_cards_def stacked_cards_def carried_cards_def armed_game_def
        weapon_first_deck_def length_createDeck)
  then have a: "listed_cards armed_game \<noteq> mset createDeck"
    using size_createDeck by auto
  have "size (listed_cards dropped_game) = 40"
    by (simp add: listed_cards_def stacked_cards_def carried_cards_def dropped_game_def
        length_createDeck)
  then have d: "listed_cards dropped_game \<noteq> mset createDeck"
    using size_createDeck by auto
  have "reachable no_swap dropped_game"
    using reachable_fresh run_dropped by (rule run_reachable)
  then show ?thesis
    using a d played_reachable [OF played_armed_game]
    by (simp add: armed_game_def dropped_game_def)
qed

text \<open>Claim C2, amended. Take a \<open>reset\<close> whose shuffle left the 44 cards in the deck,
  which it does whenever every swap index is an index of the array. In every state
  reached from it by \<open>avoidRoom\<close>, \<open>selectCard\<close>, \<open>faceRoom\<close>, and \<open>drawRoom\<close> called while
  the room is empty, as long as the game is not over, the 44 cards of \<open>createDeck\<close> are, as
  a multiset, the deck, the discard pile, the room, the monsters stacked on the weapon
  and the carried card, together with the card of the equipped weapon if there is one.
  Deck and room hold cards only, and \<open>faceRoom\<close> does not raise.\<close>

theorem cards_conserved:
  "(picks_in_range m e (Seeded (case sd of Some s \<Rightarrow> s | None \<Rightarrow> now e)) 43 44
      \<longrightarrow> played m (reset m e sd))
   \<and> (played m g \<longrightarrow>
        intact g \<and> (\<exists>r g'. faceRoom g = Inr (r, g'))
        \<and> (\<not> gameOver g \<longrightarrow> listed_cards g + held_cards g = mset createDeck))"
proof -
  have "played m (reset m e sd)"
    if "picks_in_range m e (Seeded (case sd of Some s \<Rightarrow> s | None \<Rightarrow> now e)) 43 44"
    using reset_deck_in_range [OF that] by (rule played_reset)
  moreover have "intact g \<and> (\<exists>r g'. faceRoom g = Inr (r, g'))
        \<and> (\<not> gameOver g \<longrightarrow> listed_cards g + held_cards g = mset createDeck)"
    if "played m g"
    using played_conserved [OF that] played_intact [OF that] faceRoom_never_raises [OF that]
    by (simp add: conserved_def all_cards_def)
  ultimately show ?thesis by blast
qed

text \<open>With the generator \<open>weapon_first\<close> and the seed 1 every swap index is an index of
  the array. In \<open>armed_game\<close>, reached from that \<open>reset\<close>, the listed collections and the
  two of diamonds, which is equipped, make up the 44 cards.\<close>

theorem cards_conserved_witness:
  "picks_in_range weapon_first env0 (Seeded 1) 43 44
   \<and> played weapon_first (reset weapon_first env0 (Some 1))
   \<and> played weapon_first armed_game \<and> \<not> gameOver armed_game \<and> intact armed_game
   \<and> listed_cards armed_game + {#\<lparr>suit = Diamonds, rank = ''2'', cvalue = 2\<rparr>#} = mset createDeck"
proof -
  have p: "picks_in_range weapon_first env0 (Seeded 1) 43 44" by code_simp
  have live: "\<not> gameOver armed_game" by (simp add: armed_game_def)
  have h: "held_cards armed_game = {#\<lparr>suit = Diamonds, rank = ''2'', cvalue = 2\<rparr>#}"
    by (simp add: held_cards_def armed_game_def weapon_token_def String_num_def digits.simps
        digit_char_def)
  from cards_conserved [of weapon_first env0 "Some 1" armed_game] p played_armed_game live
  have "played weapon_first (reset weapon_first env0 (Some 1)) \<and> intact armed_game
        \<and> listed_cards armed_game + held_cards armed_game = mset createDeck"
    by (simp only: option.case) blast
  then show ?thesis using p played_armed_game live by (simp only: h) blast
qed

end
